theory Spec2Isabelle
  imports Complex_Main "HOL-Library.Sublist"
begin

section \<open>Python values, exceptions and log records\<close>

text \<open>
  The program is a single Python script (\<^verbatim>\<open>main.py\<close>) that drives a browser. Its own
  logic is modelled here function by function; everything the script asks of the outside
  (the file system, the JSON and regular-expression libraries, the browser driver, the
  clipboard) appears either as a small model of the library function or as an explicit
  answer of the environment handed to the function.

  A Python \<^verbatim>\<open>str\<close> is modelled as a \<^typ>\<open>string\<close> whose characters are the code points
  below 256; the character tables below (white space, word characters) are Python's tables
  restricted to that range.
\<close>

datatype py_exn =
    OSError | JSONDecodeError | AttributeError | TypeError | ValueError | OverflowError
  | TimeoutException | NoSuchElementException | WebDriverException | PyperclipException

datatype py_float = Finite rat | PosInf | NegInf | NaN

datatype json =
    JNull | JBool bool | JInt int | JFloat py_float | JStr string
  | JArr "json list" | JObj "(string \<times> json) list"

datatype level = INFO | WARNING | ERROR

datatype log_arg = NoArg | IntArg int | JsonArg json | ExnArg py_exn

datatype log_entry = Log level string log_arg

subsection \<open>\<^verbatim>\<open>str.strip()\<close> and \<^verbatim>\<open>int(...)\<close>\<close>

definition is_space :: "char \<Rightarrow> bool" where
  "is_space c = ((of_char c :: nat) \<in> set [9, 10, 11, 12, 13, 28, 29, 30, 31, 32, 133, 160])"

definition strip :: "string \<Rightarrow> string" where
  "strip s = rev (dropWhile is_space (rev (dropWhile is_space s)))"

text \<open>\<^verbatim>\<open>int(s)\<close> on a string: optional surrounding white space (a smaller set than
  \<^verbatim>\<open>strip\<close>'s), an optional sign, then decimal digits that may be grouped by single
  underscores. The interpreter's configurable limit on the number of digits is not
  modelled.\<close>

definition is_int_space :: "char \<Rightarrow> bool" where
  "is_int_space c = ((of_char c :: nat) \<in> set [9, 10, 11, 12, 13, 32, 133, 160])"

definition digit_of :: "char \<Rightarrow> nat option" where
  "digit_of c = (let n = (of_char c :: nat) in if 48 \<le> n \<and> n \<le> 57 then Some (n - 48) else None)"

fun parse_digits :: "nat \<Rightarrow> string \<Rightarrow> nat option" where
  "parse_digits acc [] = Some acc"
| "parse_digits acc [c] =
     (case digit_of c of None \<Rightarrow> None | Some v \<Rightarrow> Some (acc * 10 + v))"
| "parse_digits acc (c # d # ds) =
     (if c = CHR ''_''
      then (case digit_of d of None \<Rightarrow> None | Some v \<Rightarrow> parse_digits (acc * 10 + v) ds)
      else (case digit_of c of None \<Rightarrow> None | Some v \<Rightarrow> parse_digits (acc * 10 + v) (d # ds)))"

definition parse_nat :: "string \<Rightarrow> nat option" where
  "parse_nat s =
     (case s of [] \<Rightarrow> None
      | c # cs \<Rightarrow> (case digit_of c of None \<Rightarrow> None | Some v \<Rightarrow> parse_digits v cs))"

definition int_of_str :: "string \<Rightarrow> py_exn + int" where
  "int_of_str s =
     (let t = rev (dropWhile is_int_space (rev (dropWhile is_int_space s)));
          r = (case t of [] \<Rightarrow> None
               | c # cs \<Rightarrow>
                   if c = CHR ''-'' then map_option (\<lambda>n. - int n) (parse_nat cs)
                   else if c = CHR ''+'' then map_option int (parse_nat cs)
                   else map_option int (parse_nat t))
      in case r of None \<Rightarrow> Inl ValueError | Some n \<Rightarrow> Inr n)"

fun py_int :: "json \<Rightarrow> py_exn + int" where
  "py_int (JInt n) = Inr n"
| "py_int (JBool b) = Inr (if b then 1 else 0)"
| "py_int (JFloat (Finite q)) = Inr (if q < 0 then - \<lfloor>- q\<rfloor> else \<lfloor>q\<rfloor>)"
| "py_int (JFloat NaN) = Inl ValueError"
| "py_int (JFloat PosInf) = Inl OverflowError"
| "py_int (JFloat NegInf) = Inl OverflowError"
| "py_int (JStr s) = int_of_str s"
| "py_int JNull = Inl TypeError"
| "py_int (JArr xs) = Inl TypeError"
| "py_int (JObj kvs) = Inl TypeError"

text \<open>\<^verbatim>\<open>data.get(key)\<close>: only a dict has the method; a missing key gives \<^verbatim>\<open>None\<close>.
  The association list stands for the dict \<^term>\<open>map_of kvs\<close>.\<close>

fun dict_get :: "json \<Rightarrow> string \<Rightarrow> py_exn + json" where
  "dict_get (JObj kvs) k = Inr (case map_of kvs k of None \<Rightarrow> JNull | Some v \<Rightarrow> v)"
| "dict_get JNull k = Inl AttributeError"
| "dict_get (JBool b) k = Inl AttributeError"
| "dict_get (JInt n) k = Inl AttributeError"
| "dict_get (JFloat f) k = Inl AttributeError"
| "dict_get (JStr s) k = Inl AttributeError"
| "dict_get (JArr xs) k = Inl AttributeError"


section \<open>Regular expressions\<close>

text \<open>
  The two patterns of the script are sequences of character classes with greedy counted
  repetition and zero-width assertions, so that is the pattern language modelled:
  \<^verbatim>\<open>^\<close>, \<^verbatim>\<open>$\<close>, \<^verbatim>\<open>\b\<close> and \<^verbatim>\<open>[class]{mn,mx}\<close> (a literal character is a one-element class
  taken exactly once).
\<close>

datatype item = StartA | EndA | WordB | Rep string nat "nat option"

definition lit :: "string \<Rightarrow> item list" where
  "lit s = map (\<lambda>c. Rep [c] 1 (Some 1)) s"

text \<open>\<^verbatim>\<open>\w\<close> for a \<^verbatim>\<open>str\<close> pattern: alphanumeric code points and the underscore.\<close>

definition is_word :: "char \<Rightarrow> bool" where
  "is_word c =
     (let n = (of_char c :: nat)
      in (48 \<le> n \<and> n \<le> 57) \<or> (65 \<le> n \<and> n \<le> 90) \<or> n = 95 \<or> (97 \<le> n \<and> n \<le> 122)
         \<or> n \<in> set [170, 178, 179, 181, 185, 186, 188, 189, 190]
         \<or> (192 \<le> n \<and> n \<le> 214) \<or> (216 \<le> n \<and> n \<le> 246) \<or> 248 \<le> n)"

definition word_before :: "char option \<Rightarrow> bool" where
  "word_before p = (case p of None \<Rightarrow> False | Some c \<Rightarrow> is_word c)"

definition word_after :: "string \<Rightarrow> bool" where
  "word_after s = (case s of [] \<Rightarrow> False | c # cs \<Rightarrow> is_word c)"

definition below_max :: "nat \<Rightarrow> nat option \<Rightarrow> bool" where
  "below_max k mx = (case mx of None \<Rightarrow> True | Some m \<Rightarrow> k < m)"

text \<open>
  The backtracking matcher. \<^term>\<open>bt pat k p s\<close> matches \<^term>\<open>pat\<close> at the head of
  \<^term>\<open>s\<close>, where \<^term>\<open>p\<close> is the character just before \<^term>\<open>s\<close> in the subject (if
  any) and \<^term>\<open>k\<close> counts the characters the repetition at the head of \<^term>\<open>pat\<close> has
  already taken. A repetition takes as many characters as it can and gives them back one
  by one when the rest of the pattern fails. The result is the unmatched remainder of the
  first match found in that order.
\<close>

fun bt :: "item list \<Rightarrow> nat \<Rightarrow> char option \<Rightarrow> string \<Rightarrow> string option" where
  "bt [] k p s = Some s"
| "bt (StartA # r) k p s = (if p = None then bt r 0 p s else None)"
| "bt (EndA # r) k p s = (if s = [] \<or> s = [CHR 0x0A] then bt r 0 p s else None)"
| "bt (WordB # r) k p s = (if word_before p \<noteq> word_after s then bt r 0 p s else None)"
| "bt (Rep cls mn mx # r) k p [] = (if mn \<le> k then bt r 0 p [] else None)"
| "bt (Rep cls mn mx # r) k p (c # cs) =
     (if c \<in> set cls \<and> below_max k mx
      then (case bt (Rep cls mn mx # r) (Suc k) (Some c) cs of
              Some rest \<Rightarrow> Some rest
            | None \<Rightarrow> if mn \<le> k then bt r 0 p (c # cs) else None)
      else if mn \<le> k then bt r 0 p (c # cs) else None)"

text \<open>\<^verbatim>\<open>re.match\<close>: a match at the start of the subject; the result is the matched text.\<close>

definition re_match :: "item list \<Rightarrow> string \<Rightarrow> string option" where
  "re_match pat s = map_option (\<lambda>rest. take (length s - length rest) s) (bt pat 0 None s)"

text \<open>The leftmost match, scanning the start positions in order: what \<^verbatim>\<open>re.search\<close>
  returns, and the first element of the list \<^verbatim>\<open>re.findall\<close> returns (its only element the
  script reads).\<close>

fun search :: "item list \<Rightarrow> char option \<Rightarrow> string \<Rightarrow> string option" where
  "search pat p [] = (case bt pat 0 p [] of Some rest \<Rightarrow> Some [] | None \<Rightarrow> None)"
| "search pat p (c # cs) =
     (case bt pat 0 p (c # cs) of
        Some rest \<Rightarrow> Some (take (length (c # cs) - length rest) (c # cs))
      | None \<Rightarrow> search pat (Some c) cs)"

text \<open>
  What it means for a pattern to match, independently of any search order:
  \<^term>\<open>accepts pat p m r\<close> says that \<^term>\<open>pat\<close> matches exactly the text \<^term>\<open>m\<close> when
  \<^term>\<open>m\<close> is preceded by the character \<^term>\<open>p\<close> and followed by \<^term>\<open>r\<close>.
\<close>

definition within_max :: "nat \<Rightarrow> nat option \<Rightarrow> bool" where
  "within_max k mx = (case mx of None \<Rightarrow> True | Some m \<Rightarrow> k \<le> m)"

definition last_char :: "char option \<Rightarrow> string \<Rightarrow> char option" where
  "last_char p m = (if m = [] then p else Some (last m))"

fun accepts :: "item list \<Rightarrow> char option \<Rightarrow> string \<Rightarrow> string \<Rightarrow> bool" where
  "accepts [] p m r = (m = [])"
| "accepts (StartA # is) p m r = (p = None \<and> accepts is p m r)"
| "accepts (EndA # is) p m r = ((m @ r = [] \<or> m @ r = [CHR 0x0A]) \<and> accepts is p m r)"
| "accepts (WordB # is) p m r = (word_before p \<noteq> word_after (m @ r) \<and> accepts is p m r)"
| "accepts (Rep cls mn mx # is) p m r =
     (\<exists>k \<in> set [mn ..< Suc (length m)].
        within_max k mx \<and> set (take k m) \<subseteq> set cls \<and>
        accepts is (last_char p (take k m)) (drop k m) r)"


section \<open>Email validity and the page-wide search\<close>

definition letters :: string where
  "letters = ''abcdefghijklmnopqrstuvwxyzABCDEFGHIJKLMNOPQRSTUVWXYZ''"

definition digits :: string where
  "digits = ''0123456789''"

definition local_chars :: string where
  "local_chars = letters @ digits @ ''._%+-''"

definition domain_chars :: string where
  "domain_chars = letters @ digits @ ''.-''"

text \<open>\<^verbatim>\<open>^[a-zA-Z0-9._%+-]+@[a-zA-Z0-9.-]+\.[a-zA-Z]{2,}$\<close>\<close>

definition email_pattern :: "item list" where
  "email_pattern =
     [StartA, Rep local_chars 1 None] @ lit ''@'' @
     [Rep domain_chars 1 None] @ lit ''.'' @ [Rep letters 2 None, EndA]"

definition is_valid_email :: "string \<Rightarrow> bool" where
  "is_valid_email text =
     (if text = [] then False else re_match email_pattern (strip text) \<noteq> None)"

text \<open>The test \<^verbatim>\<open>check_email_field_content\<close> applies to a field's value.\<close>

definition placeholders :: "string list" where
  "placeholders = [''on'', ''off'', ''true'', ''false'']"

definition field_value_ok :: "string \<Rightarrow> bool" where
  "field_value_ok email_value = (is_valid_email email_value \<and> email_value \<notin> set placeholders)"

text \<open>\<^verbatim>\<open>\b[A-Za-z0-9._%+-]+@[A-Za-z0-9.-]*\.aroflo\.com\b\<close>\<close>

definition aroflo_pattern :: "item list" where
  "aroflo_pattern =
     [WordB, Rep local_chars 1 None] @ lit ''@'' @
     [Rep domain_chars 0 None] @ lit ''.aroflo.com'' @ [WordB]"

text \<open>\<^verbatim>\<open>search_aroflo_email_in_page\<close>, given what reading \<^verbatim>\<open>driver.page_source\<close> gives.\<close>

definition search_aroflo_email_in_page :: "py_exn + string \<Rightarrow> string option" where
  "search_aroflo_email_in_page page_source =
     (case page_source of
        Inl e \<Rightarrow> None
      | Inr src \<Rightarrow> search aroflo_pattern None src)"


section \<open>Job tracker\<close>

text \<open>
  The state file \<^verbatim>\<open>job_tracker.json\<close> as the tracker sees it: absent; present but
  \<^verbatim>\<open>open\<close> or \<^verbatim>\<open>json.load\<close> raises; or present and \<^verbatim>\<open>json.load\<close> returns a document.
  \<^verbatim>\<open>json.dump\<close> followed by \<^verbatim>\<open>json.load\<close> is taken to return the dumped document.
\<close>

datatype file_state = NoFile | Unreadable py_exn | Holds json

definition DEFAULT_START_JOB_ID :: int where
  "DEFAULT_START_JOB_ID = 3411"

definition path_exists :: "file_state \<Rightarrow> bool" where
  "path_exists fs = (fs \<noteq> NoFile)"

text \<open>The body of the \<^verbatim>\<open>try\<close> in \<^verbatim>\<open>load_job_tracker\<close>: what it returns or raises, and
  what it has logged by then.\<close>

definition load_try_body :: "file_state \<Rightarrow> (py_exn + int) \<times> log_entry list" where
  "load_try_body fs =
     (case fs of
        NoFile \<Rightarrow> (Inl OSError, [])
      | Unreadable e \<Rightarrow> (Inl e, [])
      | Holds data \<Rightarrow>
          (case dict_get data ''last_index'' of
             Inl e \<Rightarrow> (Inl e, [])
           | Inr v \<Rightarrow>
               (let last_index = (if v = JNull then JInt DEFAULT_START_JOB_ID else v);
                    lg = [Log INFO ''Loaded last processed job index'' (JsonArg last_index)]
                in (py_int last_index, lg))))"

definition load_job_tracker :: "file_state \<Rightarrow> (py_exn + int) \<times> log_entry list" where
  "load_job_tracker fs =
     (if path_exists fs
      then (case load_try_body fs of
              (Inr n, lg) \<Rightarrow> (Inr n, lg)
            | (Inl e, lg) \<Rightarrow>
                (Inr DEFAULT_START_JOB_ID,
                 lg @ [Log ERROR ''Error loading job tracker'' (ExnArg e)]))
      else (Inr DEFAULT_START_JOB_ID,
            [Log INFO ''No existing job tracker found, starting from default job ID''
               (IntArg DEFAULT_START_JOB_ID)]))"

text \<open>
  What the file system does with the write in \<^verbatim>\<open>save_job_tracker\<close>: it succeeds; or
  \<^verbatim>\<open>open(..., 'w')\<close> raises and the file is untouched; or the file was opened (hence
  truncated) and \<^verbatim>\<open>json.dump\<close> raises, leaving a proper prefix of the document, which
  does not parse.
\<close>

datatype write_result = Written | OpenFailed py_exn | DumpFailed py_exn

definition save_job_tracker ::
  "write_result \<Rightarrow> int \<Rightarrow> file_state \<Rightarrow> (py_exn + unit) \<times> file_state \<times> log_entry list" where
  "save_job_tracker wr index fs =
     (case wr of
        Written \<Rightarrow>
          (Inr (), Holds (JObj [(''last_index'', JInt index)]),
           [Log INFO ''Saved last processed job index'' (IntArg index)])
      | OpenFailed e \<Rightarrow>
          (Inr (), fs, [Log ERROR ''Error saving job tracker'' (ExnArg e)])
      | DumpFailed e \<Rightarrow>
          (Inr (), Unreadable JSONDecodeError,
           [Log ERROR ''Error saving job tracker'' (ExnArg e)]))"


section \<open>The browser session\<close>

text \<open>
  The script talks to the browser, the clipboard and the state file only through calls that
  either return or raise. Each such call is an \<^emph>\<open>action\<close>; the model records every action
  the script attempts, in order, and takes the outcome of each one from the environment.
  Log output and the pauses (\<^verbatim>\<open>time.sleep\<close>) are left out, except for the log line that opens
  each iteration of the main loop, which marks the job id being attempted.
\<close>

datatype field_id = Field15 | Field16 | FieldByLabel

datatype selector = Textarea15 | Input15 | Textarea16 | Input16

datatype action =
    OpenTaskList
  | BeginTask int
  | FindTaskRows int
  | ClickTaskLink
  | FindInstallerCheckin
  | ReadEmailField selector
  | ClickClose
  | ClickWorkflow
  | ReadPageSource
  | ClickCreate
  | FindDeliveryOnly
  | WaitClickable field_id
  | ScrollTo field_id
  | ClearField field_id
  | TypeText field_id string
  | ReadBack field_id
  | ClipboardCopy string
  | PasteKeys field_id
  | ClickUpdate
  | SaveTracker int
  | Quit

record world =
  tracker_file :: file_state
  trace :: "action list"

type_synonym 'a prog = "world \<Rightarrow> (py_exn + 'a) \<times> world"

definition ret :: "'a \<Rightarrow> 'a prog" where
  "ret x = (\<lambda>w. (Inr x, w))"

definition bnd :: "'a prog \<Rightarrow> ('a \<Rightarrow> 'b prog) \<Rightarrow> 'b prog" where
  "bnd m f = (\<lambda>w. case m w of (Inl e, w') \<Rightarrow> (Inl e, w') | (Inr x, w') \<Rightarrow> f x w')"

definition try_except :: "'a prog \<Rightarrow> (py_exn \<Rightarrow> 'a prog) \<Rightarrow> 'a prog" where
  "try_except m h = (\<lambda>w. case m w of (Inl e, w') \<Rightarrow> h e w' | (Inr x, w') \<Rightarrow> (Inr x, w'))"

text \<open>An action that returns nothing, and one that returns a value; the second argument
  is the environment's answer.\<close>

definition perform :: "action \<Rightarrow> py_exn option \<Rightarrow> unit prog" where
  "perform a r =
     (\<lambda>w. (case r of None \<Rightarrow> Inr () | Some e \<Rightarrow> Inl e, w\<lparr>trace := trace w @ [a]\<rparr>))"

definition query :: "action \<Rightarrow> py_exn + 'a \<Rightarrow> 'a prog" where
  "query a r = (\<lambda>w. (r, w\<lparr>trace := trace w @ [a]\<rparr>))"

subsection \<open>What the environment answers\<close>

text \<open>What a located element reports: its \<^verbatim>\<open>value\<close> attribute, its \<^verbatim>\<open>text\<close> and its
  \<^verbatim>\<open>innerText\<close> attribute (an attribute may be \<^verbatim>\<open>None\<close>).\<close>

record field_content =
  value_attr :: "string option"
  text_prop :: string
  inner_text :: "string option"

text \<open>The answers to the calls of \<^verbatim>\<open>get_email_field\<close> and \<^verbatim>\<open>paste_email\<close>, one per call
  site. A read-back is the pair of the \<^verbatim>\<open>value\<close> attribute and the \<^verbatim>\<open>text\<close>.\<close>

record fill_env =
  delivery_only :: "py_exn + bool"
  primary_wait :: "py_exn option"
  label_wait :: "py_exn option"
  scroll_field :: "py_exn option"
  clear_first :: "py_exn option"
  type_keys :: "py_exn option"
  readback_first :: "py_exn + (string option \<times> string)"
  clipboard_copy :: "py_exn option"
  clear_second :: "py_exn option"
  paste_keys :: "py_exn option"
  readback_second :: "py_exn + (string option \<times> string)"

text \<open>The answers to the calls of one iteration of the main loop. Every path through the
  loop body makes each of these calls at most once.\<close>

record task_env =
  rows_found :: "py_exn + bool"
  link_click :: "py_exn option"
  installer_found :: "py_exn + bool"
  field_reads :: "selector \<Rightarrow> py_exn + field_content"
  close_click :: "py_exn option"
  workflow_click :: "py_exn option"
  page_source_first :: "py_exn + string"
  create_click :: "py_exn option"
  page_source_second :: "py_exn + string"
  fill :: fill_env
  update_click :: "py_exn option"
  tracker_write :: write_result

text \<open>The answers of a whole run: the outcome of everything between loading the tracker
  and the loop (login, navigation, reading the job numbers of the task list and converting
  the first one with \<^verbatim>\<open>int\<close>), which is an exception, an empty list, or the first row's job
  id; and the answers for each job id.\<close>

record run_env =
  listing :: "py_exn + int option"
  tasks :: "int \<Rightarrow> task_env"

subsection \<open>Helper functions of the script\<close>

definition py_truthy :: "string option \<Rightarrow> bool" where
  "py_truthy v = (case v of None \<Rightarrow> False | Some s \<Rightarrow> s \<noteq> [])"

definition py_or :: "string option \<Rightarrow> string option \<Rightarrow> string option" where
  "py_or a b = (if py_truthy a then a else b)"

definition is_installer_checkin_task :: "task_env \<Rightarrow> bool prog" where
  "is_installer_checkin_task env =
     try_except (query FindInstallerCheckin (installer_found env)) (\<lambda>e. ret False)"

text \<open>Lines 114 and 115: the field's text, stripped, or the empty string.\<close>

definition email_value_of :: "field_content \<Rightarrow> string" where
  "email_value_of fc =
     (case py_or (value_attr fc) (py_or (Some (text_prop fc)) (inner_text fc)) of
        None \<Rightarrow> []
      | Some s \<Rightarrow> if s = [] then [] else strip s)"

definition selectors :: "selector list" where
  "selectors = [Textarea15, Input15, Textarea16, Input16]"

fun check_fields :: "(selector \<Rightarrow> py_exn + field_content) \<Rightarrow> selector list \<Rightarrow> string option prog" where
  "check_fields rd [] = ret None"
| "check_fields rd (sel # sels) =
     bnd (try_except
            (bnd (query (ReadEmailField sel) (rd sel))
               (\<lambda>fc. let email_value = email_value_of fc
                     in ret (if field_value_ok email_value then Some email_value else None)))
            (\<lambda>e. ret None))
         (\<lambda>found. case found of
                     Some email_value \<Rightarrow> ret (Some email_value)
                   | None \<Rightarrow> check_fields rd sels)"

definition check_email_field_content :: "task_env \<Rightarrow> string option prog" where
  "check_email_field_content env =
     try_except (check_fields (field_reads env) selectors) (\<lambda>e. ret None)"

definition get_email_field :: "fill_env \<Rightarrow> field_id option prog" where
  "get_email_field env =
     try_except
       (bnd (query FindDeliveryOnly (delivery_only env))
          (\<lambda>found.
             let f = (if found then Field15 else Field16)
             in try_except
                  (bnd (perform (WaitClickable f) (primary_wait env)) (\<lambda>_. ret (Some f)))
                  (\<lambda>e. bnd (perform (WaitClickable FieldByLabel) (label_wait env))
                          (\<lambda>_. ret (Some FieldByLabel)))))
       (\<lambda>e. ret None)"

text \<open>\<^verbatim>\<open>email_field.get_attribute("value") or email_field.text\<close>\<close>

definition current_value :: "string option \<times> string \<Rightarrow> string" where
  "current_value rb =
     (case fst rb of
        None \<Rightarrow> snd rb
      | Some s \<Rightarrow> if s = [] then snd rb else s)"

definition paste_email :: "fill_env \<Rightarrow> string \<Rightarrow> bool prog" where
  "paste_email env email =
     try_except
       (bnd (get_email_field env)
          (\<lambda>email_field. case email_field of
              None \<Rightarrow> ret False
            | Some f \<Rightarrow>
                bnd (perform (ScrollTo f) (scroll_field env)) (\<lambda>_.
                bnd (perform (ClearField f) (clear_first env)) (\<lambda>_.
                bnd (perform (TypeText f email) (type_keys env)) (\<lambda>_.
                bnd (query (ReadBack f) (readback_first env)) (\<lambda>rb.
                  if strip (current_value rb) = email then ret True
                  else
                    bnd (perform (ClipboardCopy email) (clipboard_copy env)) (\<lambda>_.
                    bnd (perform (ClearField f) (clear_second env)) (\<lambda>_.
                    bnd (perform (PasteKeys f) (paste_keys env)) (\<lambda>_.
                    bnd (query (ReadBack f) (readback_second env)) (\<lambda>rb2.
                      ret (strip (current_value rb2) = email)))))))))))
       (\<lambda>e. ret False)"

text \<open>The page-wide search as the main loop calls it: one read of the page source.\<close>

definition search_page :: "py_exn + string \<Rightarrow> string option prog" where
  "search_page page_source =
     (\<lambda>w. (Inr (search_aroflo_email_in_page page_source), w\<lparr>trace := trace w @ [ReadPageSource]\<rparr>))"

definition tracker_save :: "task_env \<Rightarrow> int \<Rightarrow> unit prog" where
  "tracker_save env job_id =
     (\<lambda>w. case save_job_tracker (tracker_write env) job_id (tracker_file w) of
            (r, fs, lg) \<Rightarrow> (r, w\<lparr>tracker_file := fs, trace := trace w @ [SaveTracker job_id]\<rparr>))"

subsection \<open>The main workflow\<close>

definition default_email :: string where
  "default_email = ''default@aroflo.com''"

text \<open>Lines 323 to 357: no email was found by the first search.\<close>

definition create_step :: "task_env \<Rightarrow> bool \<Rightarrow> unit prog" where
  "create_step env workflow_clicked =
     (if workflow_clicked
      then try_except
             (bnd (perform ClickCreate (create_click env)) (\<lambda>_.
              bnd (search_page (page_source_second env)) (\<lambda>created_email.
                case created_email of
                  Some m \<Rightarrow>
                    if m \<noteq> [] then bnd (paste_email (fill env) m) (\<lambda>_. ret ())
                    else bnd (paste_email (fill env) default_email) (\<lambda>_. ret ())
                | None \<Rightarrow> bnd (paste_email (fill env) default_email) (\<lambda>_. ret ()))))
             (\<lambda>e. bnd (paste_email (fill env) default_email) (\<lambda>_. ret ()))
      else bnd (paste_email (fill env) default_email) (\<lambda>_. ret ()))"

text \<open>Lines 305 to 357: the fill workflow.\<close>

definition fill_workflow :: "task_env \<Rightarrow> unit prog" where
  "fill_workflow env =
     bnd (try_except
            (bnd (perform ClickWorkflow (workflow_click env)) (\<lambda>_. ret True))
            (\<lambda>e. ret False))
       (\<lambda>workflow_clicked.
          bnd (search_page (page_source_first env))
            (\<lambda>created_email.
               case created_email of
                 Some m \<Rightarrow>
                   if m \<noteq> [] then bnd (paste_email (fill env) m) (\<lambda>_. ret ())
                   else create_step env workflow_clicked
               | None \<Rightarrow> create_step env workflow_clicked))"

text \<open>How an iteration of the main loop ends: at the \<^verbatim>\<open>continue\<close> of line 281, 292 or 300,
  at the end of the body, or in the handler of line 377.\<close>

datatype outcome =
    NotFound | SkippedInstallerCheckin | SkippedExistingEmail | Filled | Failed py_exn

definition task_body :: "task_env \<Rightarrow> int \<Rightarrow> outcome prog" where
  "task_body env job_id =
     bnd (query (FindTaskRows job_id) (rows_found env))
       (\<lambda>rows.
          if \<not> rows then ret NotFound
          else
            bnd (perform ClickTaskLink (link_click env)) (\<lambda>_.
            bnd (is_installer_checkin_task env)
              (\<lambda>installer.
                 if installer
                 then bnd (perform ClickClose (close_click env)) (\<lambda>_.
                      bnd (tracker_save env job_id) (\<lambda>_. ret SkippedInstallerCheckin))
                 else
                   bnd (check_email_field_content env)
                     (\<lambda>existing_email.
                        if py_truthy existing_email
                        then bnd (perform ClickClose (close_click env)) (\<lambda>_.
                             bnd (tracker_save env job_id) (\<lambda>_. ret SkippedExistingEmail))
                        else
                          bnd (fill_workflow env) (\<lambda>_.
                          bnd (try_except (perform ClickUpdate (update_click env)) (\<lambda>e. ret ()))
                            (\<lambda>_.
                          bnd (tracker_save env job_id) (\<lambda>_.
                          bnd (try_except (perform ClickClose (close_click env)) (\<lambda>e. ret ()))
                            (\<lambda>_. ret Filled))))))))"

definition process_task :: "task_env \<Rightarrow> int \<Rightarrow> outcome prog" where
  "process_task env job_id =
     bnd (perform (BeginTask job_id) None)
       (\<lambda>_. try_except (task_body env job_id) (\<lambda>e. ret (Failed e)))"

text \<open>The \<^verbatim>\<open>for\<close> loop over the job ids; the result lists how each iteration ended.\<close>

fun run_tasks :: "(int \<Rightarrow> task_env) \<Rightarrow> int list \<Rightarrow> (int \<times> outcome) list prog" where
  "run_tasks envs [] = ret []"
| "run_tasks envs (job_id # ids) =
     bnd (process_task (envs job_id) job_id)
       (\<lambda>out. bnd (run_tasks envs ids) (\<lambda>outs. ret ((job_id, out) # outs)))"

definition tracker_load :: "int prog" where
  "tracker_load = (\<lambda>w. (fst (load_job_tracker (tracker_file w)), w))"

text \<open>Lines 234 to 389. \<^verbatim>\<open>range(last_index, first_row_job_id + 1)\<close> is the list
  \<^term>\<open>[last_index..first_row_job_id]\<close>. The handler of line 383 logs and raises again;
  \<^verbatim>\<open>driver.quit()\<close> runs on every path.\<close>

definition main_body :: "run_env \<Rightarrow> (int \<times> outcome) list prog" where
  "main_body env =
     bnd tracker_load
       (\<lambda>last_index.
          bnd (query OpenTaskList (listing env))
            (\<lambda>cells. case cells of
                None \<Rightarrow> ret []
              | Some first_row_job_id \<Rightarrow>
                  run_tasks (tasks env) [last_index..first_row_job_id]))"

definition main_workflow :: "run_env \<Rightarrow> (int \<times> outcome) list prog" where
  "main_workflow env =
     (\<lambda>w. case main_body env w of (r, w') \<Rightarrow> (r, w'\<lparr>trace := trace w' @ [Quit]\<rparr>))"

text \<open>Reading a trace: the job ids the loop attempted, and the values passed to
  \<^verbatim>\<open>save_job_tracker\<close>.\<close>

fun attempted :: "action list \<Rightarrow> int list" where
  "attempted [] = []"
| "attempted (BeginTask j # as) = j # attempted as"
| "attempted (a # as) = attempted as"

fun saved :: "action list \<Rightarrow> int list" where
  "saved [] = []"
| "saved (SaveTracker j # as) = j # saved as"
| "saved (a # as) = saved as"



section \<open>Auxiliary notions and example environments\<close>

text \<open>A program that only appends the actions \<^term>\<open>evs\<close> to the trace and gives \<^term>\<open>r\<close>.\<close>

definition writes :: "py_exn + 'a \<Rightarrow> action list \<Rightarrow> 'a prog" where
  "writes r evs = (\<lambda>w. (r, w\<lparr>trace := trace w @ evs\<rparr>))"

text \<open>An iteration that reached the call of \<^verbatim>\<open>save_job_tracker\<close> and ended normally.\<close>

fun stepped_through :: "outcome \<Rightarrow> bool" where
  "stepped_through SkippedInstallerCheckin = True"
| "stepped_through SkippedExistingEmail = True"
| "stepped_through Filled = True"
| "stepped_through NotFound = False"
| "stepped_through (Failed e) = False"

text \<open>Actions that are neither the start of an iteration nor a tracker save.\<close>

fun inner_action :: "action \<Rightarrow> bool" where
  "inner_action (BeginTask j) = False"
| "inner_action (SaveTracker j) = False"
| "inner_action a = True"

text \<open>
  Example answers of the environment, used to run the model on concrete inputs: a task
  with an empty email field on a page where the workflow button produces the address
  \<^verbatim>\<open>job3422@x.aroflo.com\<close>, which the field then reports back; and variations of it.
\<close>

definition plain_fill :: fill_env where
  "plain_fill =
     \<lparr> delivery_only = Inr False, primary_wait = None, label_wait = None,
       scroll_field = None, clear_first = None, type_keys = None,
       readback_first = Inr (Some ''job3422@x.aroflo.com'', ''''),
       clipboard_copy = None, clear_second = None, paste_keys = None,
       readback_second = Inr (Some ''job3422@x.aroflo.com'', '''') \<rparr>"

definition plain_task :: task_env where
  "plain_task =
     \<lparr> rows_found = Inr True, link_click = None, installer_found = Inr False,
       field_reads = (\<lambda>sel. Inr \<lparr> value_attr = Some '''', text_prop = '''', inner_text = None \<rparr>),
       close_click = None, workflow_click = None,
       page_source_first = Inr ''<td>Email: job3422@x.aroflo.com</td>'',
       create_click = None,
       page_source_second = Inr ''<td>Email: job3422@x.aroflo.com</td>'',
       fill = plain_fill, update_click = None, tracker_write = Written \<rparr>"

definition checkin_task :: task_env where
  "checkin_task = plain_task \<lparr> installer_found := Inr True \<rparr>"

definition filled_task :: task_env where
  "filled_task =
     plain_task \<lparr> field_reads :=
       (\<lambda>sel. Inr \<lparr> value_attr = Some ''bob@client.com'', text_prop = '''', inner_text = None \<rparr>) \<rparr>"

definition no_workflow_task :: task_env where
  "no_workflow_task =
     plain_task \<lparr> workflow_click := Some TimeoutException,
                  page_source_first := Inr ''<html><body>Task</body></html>'',
                  fill := plain_fill \<lparr> readback_first := Inr (Some ''default@aroflo.com'', '''') \<rparr> \<rparr>"

definition broken_link_task :: task_env where
  "broken_link_task = plain_task \<lparr> link_click := Some NoSuchElementException \<rparr>"

definition absent_task :: task_env where
  "absent_task = plain_task \<lparr> rows_found := Inr False \<rparr>"

definition stubborn_fill :: fill_env where
  "stubborn_fill = plain_fill \<lparr> readback_first := Inr (Some '''', ''''),
                                readback_second := Inr (Some '''', '''') \<rparr>"

definition scenario :: "int \<Rightarrow> task_env" where
  "scenario j =
     (if j = 3420 then checkin_task
      else if j = 3421 then filled_task
      else if j = 3422 then plain_task
      else if j = 3423 then no_workflow_task
      else if j = 3424 then broken_link_task
      else absent_task)"

definition scenario_run :: run_env where
  "scenario_run = \<lparr> listing = Inr (Some 3425), tasks = scenario \<rparr>"

definition watermark_file :: "int \<Rightarrow> file_state" where
  "watermark_file n = Holds (JObj [(''last_index'', JInt n)])"

definition start_world :: "file_state \<Rightarrow> world" where
  "start_world fs = \<lparr> tracker_file = fs, trace = [] \<rparr>"


text \<open>Programs that only append actions satisfying \<^term>\<open>Q\<close> to the trace, and those
  among them that never raise.\<close>

definition acts :: "(action \<Rightarrow> bool) \<Rightarrow> 'a prog \<Rightarrow> bool" where
  "acts Q m = (\<exists>r evs. m = writes r evs \<and> list_all Q evs)"

definition acts_total :: "(action \<Rightarrow> bool) \<Rightarrow> 'a prog \<Rightarrow> bool" where
  "acts_total Q m = (\<exists>x evs. m = writes (Inr x) evs \<and> list_all Q evs)"


definition no_email_task :: task_env where
  "no_email_task =
     plain_task \<lparr> page_source_first := Inr ''<html><body>Task</body></html>'',
                  page_source_second := Inr ''<html><body>Created</body></html>'',
                  fill := plain_fill \<lparr> readback_first := Inr (Some ''default@aroflo.com'', '''') \<rparr> \<rparr>"

text \<open>The file a successful \<^verbatim>\<open>save_job_tracker\<close> of an iteration leaves, and the job ids of
  the iterations that stepped through.\<close>

definition saved_file :: "task_env \<Rightarrow> int \<Rightarrow> world \<Rightarrow> file_state" where
  "saved_file env j w = fst (snd (save_job_tracker (tracker_write env) j (tracker_file w)))"

definition stepped_ids :: "(int \<times> outcome) list \<Rightarrow> int list" where
  "stepped_ids outs = map fst (filter (\<lambda>p. stepped_through (snd p)) outs)"


text \<open>The state file after one call of \<^verbatim>\<open>save_job_tracker\<close>, and after the calls made for a
  list of job ids in turn.\<close>

definition after_save :: "write_result \<Rightarrow> int \<Rightarrow> file_state \<Rightarrow> file_state" where
  "after_save wr j fs = fst (snd (save_job_tracker wr j fs))"

definition file_after :: "(int \<Rightarrow> task_env) \<Rightarrow> int list \<Rightarrow> file_state \<Rightarrow> file_state" where
  "file_after envs js fs = fold (\<lambda>j. after_save (tracker_write (envs j)) j) js fs"

text \<open>More example answers: a task of the excluded type whose close click times out; one
  whose state file cannot be opened for writing; and a task without any email on the
  page whose email field cannot be located.\<close>

definition stuck_checkin_task :: task_env where
  "stuck_checkin_task = checkin_task \<lparr> close_click := Some TimeoutException \<rparr>"

definition unsaved_checkin_task :: task_env where
  "unsaved_checkin_task = checkin_task \<lparr> tracker_write := OpenFailed OSError \<rparr>"

definition unsaved_run :: "int \<Rightarrow> task_env" where
  "unsaved_run j = unsaved_checkin_task"

definition no_field_task :: task_env where
  "no_field_task =
     no_workflow_task \<lparr> fill := plain_fill \<lparr> primary_wait := Some TimeoutException,
                                               label_wait := Some TimeoutException \<rparr> \<rparr>"

section \<open>The matcher finds a match exactly when one exists\<close>

lemma accepts_Rep:
  "accepts (Rep cls mn mx # is) p m r \<longleftrightarrow>
     (\<exists>k. mn \<le> k \<and> k \<le> length m \<and> within_max k mx \<and> set (take k m) \<subseteq> set cls \<and>
          accepts is (last_char p (take k m)) (drop k m) r)"
  unfolding accepts.simps set_upt Bex_def atLeastLessThan_iff less_Suc_eq_le
  by (rule iffI; clarify; blast)

declare accepts.simps(5) [simp del]

lemma bt_shift:
  "bt (Rep cls mn mx # r) (k + j) p s = bt (Rep cls (mn - k) (map_option (\<lambda>m. m - k) mx) # r) j p s"
proof (induction s arbitrary: j p)
  case Nil
  show ?case by (simp add: le_diff_conv add.commute)
next
  case (Cons c cs)
  have bm: "below_max (k + j) mx = below_max j (map_option (\<lambda>m. m - k) mx)"
    by (cases mx) (auto simp: below_max_def)
  have mn: "(mn \<le> k + j) = (mn - k \<le> j)" by auto
  from Cons [of "Suc j" "Some c"] show ?case
    by (simp add: bm mn del: map_option_eq_Some)
qed

lemma bt_Suc0:
  "bt (Rep cls mn mx # r) (Suc 0) p s = bt (Rep cls (mn - 1) (map_option (\<lambda>m. m - 1) mx) # r) 0 p s"
  using bt_shift [of cls mn mx r 1 0 p s] by simp

lemma accepts_Rep_zero:
  "mn = 0 \<Longrightarrow> accepts r p m rest \<Longrightarrow> accepts (Rep cls mn mx # r) p m rest"
  unfolding accepts_Rep by (rule exI [of _ 0]) (simp add: within_max_def last_char_def split: option.splits)

lemma accepts_Rep_step:
  assumes "accepts (Rep cls (mn - 1) (map_option (\<lambda>m. m - 1) mx) # r) (Some c) m rest"
    and "c \<in> set cls" and "below_max 0 mx"
  shows "accepts (Rep cls mn mx # r) p (c # m) rest"
proof -
  from assms(1) obtain j where j: "mn - 1 \<le> j" "j \<le> length m"
    "within_max j (map_option (\<lambda>m. m - 1) mx)" "set (take j m) \<subseteq> set cls"
    "accepts r (last_char (Some c) (take j m)) (drop j m) rest"
    unfolding accepts_Rep by auto
  have "within_max (Suc j) mx"
    using j(3) assms(3) by (cases mx) (auto simp: within_max_def below_max_def)
  moreover have "last_char p (take (Suc j) (c # m)) = last_char (Some c) (take j m)"
    by (simp add: last_char_def)
  ultimately show ?thesis
    unfolding accepts_Rep using j assms(2) by (intro exI [of _ "Suc j"]) auto
qed

lemma bt_sound:
  "bt is 0 p s = Some rest \<Longrightarrow> \<exists>m. s = m @ rest \<and> accepts is p m rest"
proof (induction "is" arbitrary: p s)
  case Nil
  then show ?case by simp
next
  case (Cons i r)
  show ?case
  proof (cases i)
    case StartA
    with Cons show ?thesis by (auto split: if_splits)
  next
    case EndA
    with Cons.prems have "bt r 0 p s = Some rest" and e: "s = [] \<or> s = [CHR 0x0A]"
      by (auto split: if_splits)
    with Cons.IH obtain m where "s = m @ rest" "accepts r p m rest" by blast
    with e EndA show ?thesis by auto
  next
    case WordB
    with Cons.prems have "bt r 0 p s = Some rest" and e: "word_before p \<noteq> word_after s"
      by (auto split: if_splits)
    with Cons.IH obtain m where "s = m @ rest" "accepts r p m rest" by blast
    with e WordB show ?thesis by auto
  next
    case (Rep cls mn mx)
    note outer = Cons.IH
    have "bt (Rep cls mn mx # r) 0 p s = Some rest \<Longrightarrow>
          \<exists>m. s = m @ rest \<and> accepts (Rep cls mn mx # r) p m rest" for mn mx
    proof (induction s arbitrary: mn mx p)
      case Nil
      then have "bt r 0 p [] = Some rest" "mn = 0" by (auto split: if_splits)
      with outer obtain m where "[] = m @ rest" "accepts r p m rest" by blast
      with \<open>mn = 0\<close> show ?case by (auto intro: accepts_Rep_zero)
    next
      case (Cons c cs)
      show ?case
      proof (cases "c \<in> set cls \<and> below_max 0 mx \<and>
                    bt (Rep cls mn mx # r) (Suc 0) (Some c) cs \<noteq> None")
        case True
        with Cons.prems have "bt (Rep cls mn mx # r) (Suc 0) (Some c) cs = Some rest"
          by (auto split: option.splits)
        then have "bt (Rep cls (mn - 1) (map_option (\<lambda>m. m - 1) mx) # r) 0 (Some c) cs = Some rest"
          by (simp only: bt_Suc0)
        from Cons.IH [OF this] obtain m where m: "cs = m @ rest"
          "accepts (Rep cls (mn - 1) (map_option (\<lambda>m. m - 1) mx) # r) (Some c) m rest"
          by blast
        from accepts_Rep_step [OF m(2)] True have "accepts (Rep cls mn mx # r) p (c # m) rest"
          by blast
        with m(1) show ?thesis by (intro exI [of _ "c # m"]) simp
      next
        case False
        with Cons.prems have "bt r 0 p (c # cs) = Some rest" "mn = 0"
          by (auto split: if_splits option.splits)
        with outer obtain m where "c # cs = m @ rest" "accepts r p m rest" by blast
        with \<open>mn = 0\<close> show ?thesis by (auto intro: accepts_Rep_zero)
      qed
    qed
    with Cons.prems Rep show ?thesis by blast
  qed
qed

lemma bt_complete:
  "accepts is p m rest \<Longrightarrow> bt is 0 p (m @ rest) \<noteq> None"
proof (induction "is" arbitrary: p m)
  case Nil
  then show ?case by simp
next
  case (Cons i r)
  show ?case
  proof (cases i)
    case StartA
    from Cons.prems have a: "accepts r p m rest" and e: "p = None"
      unfolding StartA accepts.simps by blast+
    from Cons.IH [OF a] e show ?thesis unfolding StartA by (metis bt.simps(2))
  next
    case EndA
    from Cons.prems have a: "accepts r p m rest"
      and e: "m @ rest = [] \<or> m @ rest = [CHR 0x0A]"
      unfolding EndA accepts.simps by blast+
    from Cons.IH [OF a] e show ?thesis unfolding EndA by (metis bt.simps(3))
  next
    case WordB
    from Cons.prems have a: "accepts r p m rest"
      and e: "word_before p \<noteq> word_after (m @ rest)"
      unfolding WordB accepts.simps by blast+
    from Cons.IH [OF a] e show ?thesis unfolding WordB by (metis bt.simps(4))
  next
    case (Rep cls mn mx)
    note outer = Cons.IH
    have "mn \<le> k \<Longrightarrow> k \<le> length m \<Longrightarrow> within_max k mx \<Longrightarrow> set (take k m) \<subseteq> set cls \<Longrightarrow>
          accepts r (last_char p (take k m)) (drop k m) rest \<Longrightarrow>
          bt (Rep cls mn mx # r) 0 p (m @ rest) \<noteq> None" for k mn mx
    proof (induction k arbitrary: mn mx p m)
      case 0
      then have "accepts r p m rest" "mn = 0" by (simp_all add: last_char_def)
      from outer [OF this(1)] have nn: "bt r 0 p (m @ rest) \<noteq> None" .
      show ?case
      proof (cases "m @ rest")
        case Nil
        with nn \<open>mn = 0\<close> show ?thesis by simp
      next
        case (Cons c cs)
        with nn \<open>mn = 0\<close> show ?thesis by (simp split: option.splits)
      qed
    next
      case (Suc j)
      then obtain c m' where m: "m = c # m'" by (cases m) auto
      with Suc.prems have c: "c \<in> set cls" "below_max 0 mx"
        by (auto simp: within_max_def below_max_def split: option.splits)
      have "last_char p (take (Suc j) (c # m')) = last_char (Some c) (take j m')"
        by (simp add: last_char_def)
      with Suc.prems m have
        "mn - 1 \<le> j" "j \<le> length m'" "within_max j (map_option (\<lambda>m. m - 1) mx)"
        "set (take j m') \<subseteq> set cls" "accepts r (last_char (Some c) (take j m')) (drop j m') rest"
        by (auto simp: within_max_def split: option.splits)
      from Suc.IH [OF this]
      have "bt (Rep cls mn mx # r) (Suc 0) (Some c) (m' @ rest) \<noteq> None"
        unfolding bt_Suc0 .
      then obtain y where y: "bt (Rep cls mn mx # r) (Suc 0) (Some c) (m' @ rest) = Some y"
        by blast
      have "bt (Rep cls mn mx # r) 0 p (c # (m' @ rest)) = Some y"
        by (subst bt.simps) (simp add: c y)
      with m show ?case by simp
    qed
    from this Cons.prems [unfolded Rep accepts_Rep] show ?thesis unfolding Rep by blast
  qed
qed


lemma accepts_Rep_app:
  "accepts (Rep cls mn mx # is) p m r \<longleftrightarrow>
     (\<exists>a b. m = a @ b \<and> mn \<le> length a \<and> within_max (length a) mx \<and> set a \<subseteq> set cls \<and>
            accepts is (last_char p a) b r)"
proof
  assume "accepts (Rep cls mn mx # is) p m r"
  then obtain k where k: "mn \<le> k" "k \<le> length m" "within_max k mx" "set (take k m) \<subseteq> set cls"
    "accepts is (last_char p (take k m)) (drop k m) r"
    unfolding accepts_Rep by blast
  then have "m = take k m @ drop k m" "length (take k m) = k" by simp_all
  with k show "\<exists>a b. m = a @ b \<and> mn \<le> length a \<and> within_max (length a) mx \<and> set a \<subseteq> set cls \<and>
            accepts is (last_char p a) b r"
    by metis
next
  assume "\<exists>a b. m = a @ b \<and> mn \<le> length a \<and> within_max (length a) mx \<and> set a \<subseteq> set cls \<and>
            accepts is (last_char p a) b r"
  then obtain a b where "m = a @ b" "mn \<le> length a" "within_max (length a) mx" "set a \<subseteq> set cls"
    "accepts is (last_char p a) b r" by blast
  then show "accepts (Rep cls mn mx # is) p m r"
    unfolding accepts_Rep by (intro exI [of _ "length a"]) simp
qed

lemma accepts_lit:
  "accepts (lit s @ rs) p m r \<longleftrightarrow> (\<exists>m'. m = s @ m' \<and> accepts rs (last_char p s) m' r)"
proof (induction s arbitrary: p m)
  case Nil
  show ?case by (simp add: lit_def last_char_def)
next
  case (Cons c s)
  have l: "lit (c # s) @ rs = Rep [c] 1 (Some 1) # (lit s @ rs)" by (simp add: lit_def)
  have lc: "last_char p (c # s) = last_char (Some c) s" by (simp add: last_char_def)
  have one: "(1 \<le> length a \<and> within_max (length a) (Some 1) \<and> set a \<subseteq> set [c]) = (a = [c])" for a
    by (cases a) (auto simp: within_max_def)
  show ?case
    unfolding l lc accepts_Rep_app Cons.IH
    apply (rule iffI)
     apply (metis one append_Cons append_Nil last_char_def last.simps list.distinct(1))
    apply (metis one append_Cons append_Nil last_char_def last.simps list.distinct(1))
    done
qed

lemma last_char_Cons: "last_char p (c # x) = last_char (Some c) x"
  by (simp add: last_char_def)

lemma last_char_Nil: "last_char p [] = p"
  by (simp add: last_char_def)

lemma bt_take:
  assumes "bt pat 0 p s = Some rest"
  shows "\<exists>m. s = m @ rest \<and> take (length s - length rest) s = m \<and> accepts pat p m rest"
proof -
  from bt_sound [OF assms] obtain m where "s = m @ rest" "accepts pat p m rest" by blast
  then show ?thesis by simp
qed

lemma search_Some:
  "search pat p s = Some m \<Longrightarrow>
   \<exists>pre post. s = pre @ m @ post \<and> accepts pat (last_char p pre) m post \<and>
     (\<forall>pre' m' post'. s = pre' @ m' @ post' \<and> length pre' < length pre \<longrightarrow>
        \<not> accepts pat (last_char p pre') m' post')"
proof (induction s arbitrary: p)
  case Nil
  then obtain rest where "bt pat 0 p [] = Some rest" "m = []" by (auto split: option.splits)
  from bt_take [OF this(1)] \<open>m = []\<close> show ?case
    by (intro exI [of _ "[]"]) (auto simp: last_char_Nil)
next
  case (Cons c cs)
  show ?case
  proof (cases "bt pat 0 p (c # cs)")
    case (Some rest)
    with Cons.prems have m: "m = take (length (c # cs) - length rest) (c # cs)" by simp
    from bt_take [OF Some] m have "c # cs = m @ rest" "accepts pat p m rest" by auto
    then show ?thesis
      by (intro exI [of _ "[]"] exI [of _ rest]) (simp add: last_char_def)
  next
    case None
    with Cons.prems have "search pat (Some c) cs = Some m" by simp
    from Cons.IH [OF this] obtain pre post where pp: "cs = pre @ m @ post"
      "accepts pat (last_char (Some c) pre) m post"
      "\<forall>pre' m' post'. cs = pre' @ m' @ post' \<and> length pre' < length pre \<longrightarrow>
        \<not> accepts pat (last_char (Some c) pre') m' post'" by blast
    note lc = last_char_Cons
    have "\<not> accepts pat (last_char p pre') m' post'"
      if "c # cs = pre' @ m' @ post'" "length pre' < length (c # pre)" for pre' m' post'
    proof (cases pre')
      case Nil
      with that bt_complete [of pat p m' post'] None show ?thesis by (auto simp: last_char_def)
    next
      case (Cons d pre'')
      with that pp(3) show ?thesis by (auto simp: lc)
    qed
    with pp(1,2) show ?thesis
      by (intro exI [of _ "c # pre"] exI [of _ post]) (simp add: lc)
  qed
qed

lemma search_None:
  "search pat p s = None \<longleftrightarrow>
   (\<forall>pre m post. s = pre @ m @ post \<longrightarrow> \<not> accepts pat (last_char p pre) m post)"
proof (induction s arbitrary: p)
  case Nil
  show ?case
  proof
    assume "search pat p [] = None"
    then have "bt pat 0 p [] = None" by (auto split: option.splits)
    with bt_complete [of pat p "[]" "[]"] 
    show "\<forall>pre m post. [] = pre @ m @ post \<longrightarrow> \<not> accepts pat (last_char p pre) m post"
      by (auto simp: last_char_def)
  next
    assume a: "\<forall>pre m post. [] = pre @ m @ post \<longrightarrow> \<not> accepts pat (last_char p pre) m post"
    have "bt pat 0 p [] = None"
    proof (rule ccontr)
      assume "bt pat 0 p [] \<noteq> None"
      then obtain rest where "bt pat 0 p [] = Some rest" by auto
      from bt_sound [OF this] a [rule_format, of "[]" "[]" "[]"] show False
        by (auto simp: last_char_def)
    qed
    then show "search pat p [] = None" by simp
  qed
next
  case (Cons c cs)
  note lc = last_char_Cons
  show ?case
  proof
    assume s: "search pat p (c # cs) = None"
    then have b: "bt pat 0 p (c # cs) = None" and "search pat (Some c) cs = None"
      by (auto split: option.splits)
    with Cons.IH [of "Some c"] have ih:
      "\<And>pre m post. cs = pre @ m @ post \<Longrightarrow> \<not> accepts pat (last_char (Some c) pre) m post"
      by blast
    show "\<forall>pre m post. c # cs = pre @ m @ post \<longrightarrow> \<not> accepts pat (last_char p pre) m post"
    proof (intro allI impI)
      fix pre m post assume e: "c # cs = pre @ m @ post"
      show "\<not> accepts pat (last_char p pre) m post"
      proof (cases pre)
        case Nil
        with e bt_complete [of pat p m post] b show ?thesis by (auto simp: last_char_def)
      next
        case (Cons d pre')
        with e ih [of pre' m post] show ?thesis by (auto simp: lc)
      qed
    qed
  next
    assume a: "\<forall>pre m post. c # cs = pre @ m @ post \<longrightarrow> \<not> accepts pat (last_char p pre) m post"
    have b: "bt pat 0 p (c # cs) = None"
    proof (rule ccontr)
      assume "bt pat 0 p (c # cs) \<noteq> None"
      then obtain rest where "bt pat 0 p (c # cs) = Some rest" by auto
      from bt_sound [OF this] a [rule_format, of "[]" _ rest] show False
        by (auto simp: last_char_def)
    qed
    have "\<forall>pre m post. cs = pre @ m @ post \<longrightarrow> \<not> accepts pat (last_char (Some c) pre) m post"
    proof (intro allI impI)
      fix pre m post assume "cs = pre @ m @ post"
      with a [rule_format, of "c # pre" m post] show "\<not> accepts pat (last_char (Some c) pre) m post"
        by (simp add: lc)
    qed
    with Cons.IH [of "Some c"] have "search pat (Some c) cs = None" by blast
    with b show "search pat p (c # cs) = None" by simp
  qed
qed


lemma accepts_EndA_only:
  "accepts [EndA] p m r \<longleftrightarrow> m = [] \<and> (r = [] \<or> r = [CHR 0x0A])"
  by auto

lemma accepts_email_pattern:
  "accepts email_pattern p m r \<longleftrightarrow>
     p = None \<and> (r = [] \<or> r = [CHR 0x0A]) \<and>
     (\<exists>l d t. m = l @ ''@'' @ d @ ''.'' @ t \<and>
        1 \<le> length l \<and> set l \<subseteq> set local_chars \<and>
        1 \<le> length d \<and> set d \<subseteq> set domain_chars \<and>
        2 \<le> length t \<and> set t \<subseteq> set letters)"
proof -
  have "accepts email_pattern p m r \<longleftrightarrow>
     p = None \<and>
     (\<exists>l b. m = l @ b \<and> 1 \<le> length l \<and> set l \<subseteq> set local_chars \<and>
       (\<exists>m'. b = ''@'' @ m' \<and>
         (\<exists>d b'. m' = d @ b' \<and> 1 \<le> length d \<and> set d \<subseteq> set domain_chars \<and>
           (\<exists>m''. b' = ''.'' @ m'' \<and>
             (\<exists>t b''. m'' = t @ b'' \<and> 2 \<le> length t \<and> set t \<subseteq> set letters \<and>
                b'' = [] \<and> (r = [] \<or> r = [CHR 0x0A]))))))"
    unfolding email_pattern_def append_Cons append_Nil accepts.simps(2) accepts_Rep_app
      accepts_lit accepts_EndA_only within_max_def option.case
    by (simp only: simp_thms)
  also have "\<dots> \<longleftrightarrow> p = None \<and> (r = [] \<or> r = [CHR 0x0A]) \<and>
     (\<exists>l d t. m = l @ ''@'' @ d @ ''.'' @ t \<and>
        1 \<le> length l \<and> set l \<subseteq> set local_chars \<and>
        1 \<le> length d \<and> set d \<subseteq> set domain_chars \<and>
        2 \<le> length t \<and> set t \<subseteq> set letters)"
    by (rule iffI; clarsimp; blast)
  finally show ?thesis .
qed

lemma strip_no_trailing_space: "is_space c \<Longrightarrow> strip s \<noteq> xs @ [c]"
proof
  assume c: "is_space c" and "strip s = xs @ [c]"
  then have "rev (strip s) = c # rev xs" by simp
  then have d: "dropWhile is_space (rev (dropWhile is_space s)) = c # rev xs"
    by (simp add: strip_def)
  then have "dropWhile is_space (rev (dropWhile is_space s)) \<noteq> []" by simp
  from hd_dropWhile [OF this] d c show False by simp
qed

lemma is_valid_email_iff:
  "is_valid_email text \<longleftrightarrow>
     text \<noteq> [] \<and>
     (\<exists>l d t. strip text = l @ ''@'' @ d @ ''.'' @ t \<and>
        1 \<le> length l \<and> set l \<subseteq> set local_chars \<and>
        1 \<le> length d \<and> set d \<subseteq> set domain_chars \<and>
        2 \<le> length t \<and> set t \<subseteq> set letters)"
proof (cases "text = []")
  case True
  then show ?thesis by (simp add: is_valid_email_def)
next
  case False
  have sp: "is_space (CHR 0x0A)" by (simp add: is_space_def)
  have "bt email_pattern 0 None (strip text) \<noteq> None \<longleftrightarrow> accepts email_pattern None (strip text) []"
  proof
    assume "bt email_pattern 0 None (strip text) \<noteq> None"
    then obtain rest where "bt email_pattern 0 None (strip text) = Some rest" by auto
    from bt_sound [OF this] obtain m where m: "strip text = m @ rest"
      "accepts email_pattern None m rest" by blast
    then have "rest = [] \<or> rest = [CHR 0x0A]" by (simp add: accepts_email_pattern)
    with m(1) strip_no_trailing_space [OF sp, of "text" m] have "rest = []" by auto
    with m show "accepts email_pattern None (strip text) []" by simp
  next
    assume "accepts email_pattern None (strip text) []"
    from bt_complete [OF this] show "bt email_pattern 0 None (strip text) \<noteq> None" by simp
  qed
  with False show ?thesis
    by (simp add: is_valid_email_def re_match_def accepts_email_pattern)
qed

lemma accepts_aroflo_pattern:
  "accepts aroflo_pattern p m r \<Longrightarrow>
     \<exists>l d. m = l @ ''@'' @ d @ ''.aroflo.com'' \<and> 1 \<le> length l \<and> set l \<subseteq> set local_chars \<and>
       set d \<subseteq> set domain_chars"
  unfolding aroflo_pattern_def append_Cons append_Nil accepts.simps(1-4) accepts_Rep_app
      accepts_lit within_max_def option.case
  by (clarsimp; blast)

section \<open>Properties of the email patterns\<close>

lemma valid_sample: "is_valid_email ''a.b+tag@sub.domain.co''"
  by code_simp

lemma sample_not_placeholder: "''a.b+tag@sub.domain.co'' \<notin> set placeholders"
  by (simp add: placeholders_def)

text \<open>
  Claim C2. The email validity predicate accepts \<^verbatim>\<open>a.b+tag@sub.domain.co\<close> and rejects
  \<^verbatim>\<open>not-an-email\<close>, the empty string, \<^verbatim>\<open>on\<close> and \<^verbatim>\<open>true\<close>. A candidate is accepted by the
  field check only if, once stripped, it has the shape \<^verbatim>\<open>local@domain.tld\<close> of the email
  pattern (a non-empty local part over letters, digits and \<^verbatim>\<open>._%+-\<close>, a non-empty domain
  over letters, digits and \<^verbatim>\<open>.-\<close>, and at least two letters after the last dot), and it is
  none of the placeholder strings \<^verbatim>\<open>on\<close>, \<^verbatim>\<open>off\<close>, \<^verbatim>\<open>true\<close>, \<^verbatim>\<open>false\<close>.
\<close>

theorem email_validity:
  "is_valid_email ''a.b+tag@sub.domain.co'' \<and> field_value_ok ''a.b+tag@sub.domain.co'' \<and>
   \<not> is_valid_email ''not-an-email'' \<and> \<not> is_valid_email '''' \<and>
   \<not> is_valid_email ''on'' \<and> \<not> is_valid_email ''true'' \<and>
   \<not> field_value_ok ''not-an-email'' \<and> \<not> field_value_ok '''' \<and>
   \<not> field_value_ok ''on'' \<and> \<not> field_value_ok ''true'' \<and>
   (field_value_ok v \<longrightarrow>
      accepts email_pattern None (strip v) [] \<and>
      (\<exists>l d t. strip v = l @ ''@'' @ d @ ''.'' @ t \<and>
         1 \<le> length l \<and> set l \<subseteq> set local_chars \<and>
         1 \<le> length d \<and> set d \<subseteq> set domain_chars \<and>
         2 \<le> length t \<and> set t \<subseteq> set letters) \<and>
      v \<noteq> ''on'' \<and> v \<noteq> ''off'' \<and> v \<noteq> ''true'' \<and> v \<noteq> ''false'')"
proof -
  have a: "is_valid_email ''a.b+tag@sub.domain.co''" by (rule valid_sample)
  have b: "\<not> is_valid_email ''not-an-email''" by code_simp
  have c: "\<not> is_valid_email ''''" by (simp add: is_valid_email_def)
  have d: "\<not> is_valid_email ''on''" by code_simp
  have e: "\<not> is_valid_email ''true''" by code_simp
  have g: "accepts email_pattern None (strip v) [] \<and>
      (\<exists>l d t. strip v = l @ ''@'' @ d @ ''.'' @ t \<and>
         1 \<le> length l \<and> set l \<subseteq> set local_chars \<and>
         1 \<le> length d \<and> set d \<subseteq> set domain_chars \<and>
         2 \<le> length t \<and> set t \<subseteq> set letters) \<and>
      v \<noteq> ''on'' \<and> v \<noteq> ''off'' \<and> v \<noteq> ''true'' \<and> v \<noteq> ''false''"
    if "field_value_ok v"
  proof -
    from that have v: "is_valid_email v" and p: "v \<notin> set placeholders"
      by (simp_all add: field_value_ok_def)
    from v have sh: "\<exists>l d t. strip v = l @ ''@'' @ d @ ''.'' @ t \<and>
         1 \<le> length l \<and> set l \<subseteq> set local_chars \<and>
         1 \<le> length d \<and> set d \<subseteq> set domain_chars \<and>
         2 \<le> length t \<and> set t \<subseteq> set letters"
      by (simp add: is_valid_email_iff)
    then have "accepts email_pattern None (strip v) []"
      by (simp add: accepts_email_pattern)
    with sh p show ?thesis by (simp add: placeholders_def)
  qed
  from a b c d e g show ?thesis
    by (simp add: field_value_ok_def sample_not_placeholder)
qed

theorem email_validity_witness:
  "field_value_ok ''a.b+tag@sub.domain.co'' \<and>
   accepts email_pattern None (strip ''a.b+tag@sub.domain.co'') [] \<and>
   ''a.b+tag@sub.domain.co'' \<noteq> ''on''"
  using email_validity [of "''a.b+tag@sub.domain.co''"] by blast

text \<open>
  Claim C9. Every value returned by the page-wide search ends with \<^verbatim>\<open>.aroflo.com\<close> and is
  the first occurrence, in page-source order, of a text matching the aroflo-domain email
  pattern: it occurs in the page, the pattern matches it there, and the pattern matches
  nothing that starts earlier. The search returns \<^verbatim>\<open>None\<close>, and does not raise, exactly
  when the pattern matches nowhere in the page, and also when reading the page source
  raises.
\<close>

theorem search_aroflo_first_occurrence:
  "(search_aroflo_email_in_page page = Some m \<longrightarrow>
      suffix ''.aroflo.com'' m \<and>
      (\<exists>pre post. page = Inr (pre @ m @ post) \<and>
         accepts aroflo_pattern (last_char None pre) m post \<and>
         (\<forall>pre' m' post'. pre @ m @ post = pre' @ m' @ post' \<and> length pre' < length pre \<longrightarrow>
            \<not> accepts aroflo_pattern (last_char None pre') m' post'))) \<and>
   (search_aroflo_email_in_page (Inr src) = None \<longleftrightarrow>
      (\<forall>pre m' post. src = pre @ m' @ post \<longrightarrow>
         \<not> accepts aroflo_pattern (last_char None pre) m' post)) \<and>
   search_aroflo_email_in_page (Inl e) = None"
proof -
  have one: "suffix ''.aroflo.com'' m \<and>
      (\<exists>pre post. page = Inr (pre @ m @ post) \<and>
         accepts aroflo_pattern (last_char None pre) m post \<and>
         (\<forall>pre' m' post'. pre @ m @ post = pre' @ m' @ post' \<and> length pre' < length pre \<longrightarrow>
            \<not> accepts aroflo_pattern (last_char None pre') m' post'))"
    if "search_aroflo_email_in_page page = Some m"
  proof -
    from that obtain src where src: "page = Inr src" "search aroflo_pattern None src = Some m"
      by (auto simp: search_aroflo_email_in_page_def split: sum.splits)
    from search_Some [OF src(2)] obtain pre post where pp: "src = pre @ m @ post"
      "accepts aroflo_pattern (last_char None pre) m post"
      "\<forall>pre' m' post'. src = pre' @ m' @ post' \<and> length pre' < length pre \<longrightarrow>
         \<not> accepts aroflo_pattern (last_char None pre') m' post'"
      by blast
    from accepts_aroflo_pattern [OF pp(2)] have "suffix ''.aroflo.com'' m"
      by (auto simp: suffix_def)
    with src(1) pp show ?thesis by blast
  qed
  have two: "search_aroflo_email_in_page (Inr src) = None \<longleftrightarrow>
      (\<forall>pre m' post. src = pre @ m' @ post \<longrightarrow>
         \<not> accepts aroflo_pattern (last_char None pre) m' post)"
    by (simp add: search_aroflo_email_in_page_def search_None)
  have three: "search_aroflo_email_in_page (Inl e) = None"
    by (simp add: search_aroflo_email_in_page_def)
  from one two three show ?thesis by blast
qed

lemma search_sample:
  "search_aroflo_email_in_page (Inr ''x >%foo@a.aroflo.com.aroflo.comx y@.aroflo.com'')
     = Some ''foo@a.aroflo.com''"
  by code_simp

lemma search_sample_none:
  "search_aroflo_email_in_page (Inr ''mail default@aroflo.com or bob@client.com'') = None"
  by code_simp

theorem search_aroflo_first_occurrence_witness:
  "search_aroflo_email_in_page (Inr ''x >%foo@a.aroflo.com.aroflo.comx y@.aroflo.com'')
     = Some ''foo@a.aroflo.com'' \<and>
   suffix ''.aroflo.com'' ''foo@a.aroflo.com'' \<and>
   search_aroflo_email_in_page (Inr ''mail default@aroflo.com or bob@client.com'') = None \<and>
   \<not> (\<exists>pre m' post. ''mail default@aroflo.com or bob@client.com'' = pre @ m' @ post \<and>
      accepts aroflo_pattern (last_char None pre) m' post)"
  using search_aroflo_first_occurrence
          [of "Inr ''x >%foo@a.aroflo.com.aroflo.comx y@.aroflo.com''" "''foo@a.aroflo.com''"
              "''mail default@aroflo.com or bob@client.com''"]
        search_sample search_sample_none
  by blast


section \<open>Properties of the job tracker\<close>

lemma load_try_body_Holds_missing:
  "map_of kvs ''last_index'' = None \<Longrightarrow>
   load_try_body (Holds (JObj kvs)) =
     (Inr 3411, [Log INFO ''Loaded last processed job index'' (JsonArg (JInt 3411))])"
  by (simp add: load_try_body_def DEFAULT_START_JOB_ID_def)

text \<open>
  Claim C10. When the state file exists and parses as a JSON object that has no
  \<^verbatim>\<open>"last_index"\<close> key, \<^verbatim>\<open>load_job_tracker\<close> returns the configured default 3411 (and
  logs the value as loaded, not an error).
\<close>

theorem load_missing_key_default:
  "map_of kvs ''last_index'' = None \<Longrightarrow>
   load_job_tracker (Holds (JObj kvs)) =
     (Inr 3411, [Log INFO ''Loaded last processed job index'' (JsonArg (JInt 3411))])"
  by (simp add: load_job_tracker_def path_exists_def load_try_body_Holds_missing)

theorem load_missing_key_default_witness:
  "map_of [(''other'', JInt 5)] ''last_index'' = None \<and>
   load_job_tracker (Holds (JObj [(''other'', JInt 5)])) =
     (Inr 3411, [Log INFO ''Loaded last processed job index'' (JsonArg (JInt 3411))])"
  using load_missing_key_default [of "[(''other'', JInt 5)]"] by simp

lemma load_never_raises: "\<exists>n lg. load_job_tracker fs = (Inr n, lg)"
  by (cases "load_try_body fs"; cases "fst (load_try_body fs)")
     (auto simp: load_job_tracker_def)

lemma tracker_save_eq:
  "tracker_save env index w =
     (Inr (), w\<lparr>tracker_file :=
                   fst (snd (save_job_tracker (tracker_write env) index (tracker_file w))),
                 trace := trace w @ [SaveTracker index]\<rparr>)"
  by (cases "tracker_write env") (simp_all add: tracker_save_def save_job_tracker_def)

lemma tracker_save_returns:
  "\<exists>fs. tracker_save env index w =
     (Inr (), w\<lparr>tracker_file := fs, trace := trace w @ [SaveTracker index]\<rparr>)"
  using tracker_save_eq by blast

text \<open>
  Claim C3. Neither tracker operation raises. \<^verbatim>\<open>load_job_tracker\<close> always returns an integer;
  it returns the default 3411 when there is no state file, and also, after logging an
  error, whenever opening, parsing or reading the document raises. \<^verbatim>\<open>save_job_tracker\<close>
  always returns; a failed write is logged as an error, and the main loop goes on after the
  call.
\<close>

theorem tracker_never_raises:
  "(\<exists>n lg. load_job_tracker fs = (Inr n, lg)) \<and>
   load_job_tracker NoFile =
     (Inr 3411, [Log INFO ''No existing job tracker found, starting from default job ID''
                   (IntArg 3411)]) \<and>
   load_job_tracker (Unreadable e) =
     (Inr 3411, [Log ERROR ''Error loading job tracker'' (ExnArg e)]) \<and>
   (fs \<noteq> NoFile \<and> load_try_body fs = (Inl e, lg) \<longrightarrow>
      load_job_tracker fs =
        (Inr 3411, lg @ [Log ERROR ''Error loading job tracker'' (ExnArg e)])) \<and>
   (\<exists>fs' lg'. save_job_tracker wr index fs = (Inr (), fs', lg')) \<and>
   (wr = OpenFailed e \<or> wr = DumpFailed e \<longrightarrow>
      (\<exists>fs'. save_job_tracker wr index fs =
         (Inr (), fs', [Log ERROR ''Error saving job tracker'' (ExnArg e)]))) \<and>
   (\<exists>fs'. tracker_save env index w =
      (Inr (), w\<lparr>tracker_file := fs', trace := trace w @ [SaveTracker index]\<rparr>))"
proof -
  have a: "load_job_tracker NoFile =
     (Inr 3411, [Log INFO ''No existing job tracker found, starting from default job ID''
                   (IntArg 3411)])"
    by (simp add: load_job_tracker_def path_exists_def DEFAULT_START_JOB_ID_def)
  have b: "load_job_tracker (Unreadable e) =
     (Inr 3411, [Log ERROR ''Error loading job tracker'' (ExnArg e)])"
    by (simp add: load_job_tracker_def path_exists_def load_try_body_def
        DEFAULT_START_JOB_ID_def)
  have c: "load_job_tracker fs =
        (Inr 3411, lg @ [Log ERROR ''Error loading job tracker'' (ExnArg e)])"
    if "fs \<noteq> NoFile" "load_try_body fs = (Inl e, lg)"
    using that by (simp add: load_job_tracker_def path_exists_def DEFAULT_START_JOB_ID_def)
  have d: "\<exists>fs' lg'. save_job_tracker wr index fs = (Inr (), fs', lg')"
    by (cases wr) (simp_all add: save_job_tracker_def)
  have f: "\<exists>fs'. save_job_tracker wr index fs =
         (Inr (), fs', [Log ERROR ''Error saving job tracker'' (ExnArg e)])"
    if "wr = OpenFailed e \<or> wr = DumpFailed e"
    using that by (auto simp: save_job_tracker_def)
  from load_never_raises [of fs] a b c d f tracker_save_returns [of env index w]
  show ?thesis by blast
qed

theorem tracker_never_raises_witness:
  "Holds (JArr []) \<noteq> NoFile \<and> load_try_body (Holds (JArr [])) = (Inl AttributeError, []) \<and>
   load_job_tracker (Holds (JArr [])) =
     (Inr 3411, [Log ERROR ''Error loading job tracker'' (ExnArg AttributeError)]) \<and>
   (\<exists>fs'. save_job_tracker (DumpFailed AttributeError) 42 (Holds (JArr [])) =
      (Inr (), fs', [Log ERROR ''Error saving job tracker'' (ExnArg AttributeError)]))"
proof -
  have h: "Holds (JArr []) \<noteq> NoFile \<and>
           load_try_body (Holds (JArr [])) = (Inl AttributeError, [])"
    by (simp add: load_try_body_def)
  have k: "DumpFailed AttributeError = OpenFailed AttributeError \<or>
           DumpFailed AttributeError = DumpFailed AttributeError"
    by simp
  from h k tracker_never_raises
         [of "Holds (JArr [])" AttributeError "[]" "DumpFailed AttributeError" 42]
  show ?thesis by simp
qed

text \<open>
  Claim C4. For every integer \<^term>\<open>n\<close>, when the write succeeds, \<^verbatim>\<open>save_job_tracker(n)\<close>
  followed by \<^verbatim>\<open>load_job_tracker()\<close> on the file it left returns exactly \<^term>\<open>n\<close>, whatever
  the file held before.
\<close>

theorem save_load_roundtrip:
  "fst (load_job_tracker (fst (snd (save_job_tracker Written n fs)))) = Inr n"
  by (simp add: save_job_tracker_def load_job_tracker_def path_exists_def load_try_body_def)


section \<open>Properties of the main workflow\<close>

lemma world_trace_nil [simp]: "w\<lparr>trace := trace w @ []\<rparr> = w"
  by simp

lemma writes_apply: "writes r evs w = (r, w\<lparr>trace := trace w @ evs\<rparr>)"
  by (simp add: writes_def)

lemma writes_eq_iff: "writes r evs = writes r' evs' \<longleftrightarrow> r = r' \<and> evs = evs'"
proof
  assume "writes r evs = writes r' evs'"
  then have "writes r evs \<lparr>tracker_file = NoFile, trace = []\<rparr> =
             writes r' evs' \<lparr>tracker_file = NoFile, trace = []\<rparr>" by simp
  then show "r = r' \<and> evs = evs'" by (simp add: writes_def)
qed simp

lemma ret_writes: "ret x = writes (Inr x) []"
  by (rule ext) (simp add: ret_def writes_def)

lemma perform_writes:
  "perform a r = writes (case r of None \<Rightarrow> Inr () | Some e \<Rightarrow> Inl e) [a]"
  by (rule ext) (simp add: perform_def writes_def)

lemma query_writes: "query a r = writes r [a]"
  by (rule ext) (simp add: query_def writes_def)

lemma search_page_writes:
  "search_page p = writes (Inr (search_aroflo_email_in_page p)) [ReadPageSource]"
  by (rule ext) (simp add: search_page_def writes_def)

lemma bnd_writes_Inl: "bnd (writes (Inl e) evs) f = writes (Inl e) evs"
  by (rule ext) (simp add: bnd_def writes_def)

lemma bnd_writes_Inr:
  "f x = writes r e2 \<Longrightarrow> bnd (writes (Inr x) e1) f = writes r (e1 @ e2)"
  by (rule ext) (simp add: bnd_def writes_def)

lemma try_writes_Inr: "try_except (writes (Inr x) evs) h = writes (Inr x) evs"
  by (rule ext) (simp add: try_except_def writes_def)

lemma try_writes_Inl:
  "h e = writes r e2 \<Longrightarrow> try_except (writes (Inl e) e1) h = writes r (e1 @ e2)"
  by (rule ext) (simp add: try_except_def writes_def)

lemma acts_totalD: "acts_total Q m \<Longrightarrow> acts Q m"
  by (auto simp: acts_def acts_total_def)

lemma acts_ret: "acts Q (ret x)"
  unfolding acts_def ret_writes by (intro exI [of _ "[]"] exI) simp

lemma acts_total_ret: "acts_total Q (ret x)"
  unfolding acts_total_def ret_writes by (intro exI [of _ "[]"] exI) simp

lemma acts_perform: "Q a \<Longrightarrow> acts Q (perform a r)"
  unfolding acts_def perform_writes by (intro exI [of _ "[a]"] exI) simp

lemma acts_total_perform: "Q a \<Longrightarrow> acts_total Q (perform a None)"
  unfolding acts_total_def perform_writes by (intro exI [of _ "[a]"] exI [of _ "()"]) simp

lemma acts_query: "Q a \<Longrightarrow> acts Q (query a r)"
  unfolding acts_def query_writes by (intro exI [of _ "[a]"] exI) simp

lemma acts_search_page: "Q ReadPageSource \<Longrightarrow> acts_total Q (search_page p)"
  unfolding acts_total_def search_page_writes by (intro exI [of _ "[ReadPageSource]"] exI) simp

lemma acts_bnd:
  assumes "acts Q m" and "\<And>x. acts Q (f x)"
  shows "acts Q (bnd m f)"
proof -
  from assms(1) obtain r e1 where m: "m = writes r e1" "list_all Q e1"
    by (auto simp: acts_def)
  show ?thesis
  proof (cases r)
    case (Inl e)
    with m show ?thesis by (auto simp: acts_def bnd_writes_Inl)
  next
    case (Inr x)
    from assms(2) [of x] obtain r2 e2 where f: "f x = writes r2 e2" "list_all Q e2"
      by (auto simp: acts_def)
    from bnd_writes_Inr [where f = f and x = x and ?e1.0 = e1, OF f(1)] m Inr f(2) show ?thesis
      unfolding acts_def by (intro exI [of _ r2] exI [of _ "e1 @ e2"]) simp
  qed
qed

lemma acts_total_bnd:
  assumes "acts_total Q m" and "\<And>x. acts_total Q (f x)"
  shows "acts_total Q (bnd m f)"
proof -
  from assms(1) obtain x e1 where m: "m = writes (Inr x) e1" "list_all Q e1"
    by (auto simp: acts_total_def)
  from assms(2) [of x] obtain y e2 where f: "f x = writes (Inr y) e2" "list_all Q e2"
    by (auto simp: acts_total_def)
  from bnd_writes_Inr [where f = f and x = x and ?e1.0 = e1, OF f(1)] m f(2) show ?thesis
    unfolding acts_total_def by (intro exI [of _ y] exI [of _ "e1 @ e2"]) simp
qed

lemma acts_try:
  assumes "acts Q m" and "\<And>e. acts Q (h e)"
  shows "acts Q (try_except m h)"
proof -
  from assms(1) obtain r e1 where m: "m = writes r e1" "list_all Q e1"
    by (auto simp: acts_def)
  show ?thesis
  proof (cases r)
    case (Inr x)
    with m show ?thesis by (auto simp: acts_def try_writes_Inr)
  next
    case (Inl e)
    from assms(2) [of e] obtain r2 e2 where f: "h e = writes r2 e2" "list_all Q e2"
      by (auto simp: acts_def)
    from try_writes_Inl [where h = h and e = e and ?e1.0 = e1, OF f(1)] m Inl f(2) show ?thesis
      unfolding acts_def by (intro exI [of _ r2] exI [of _ "e1 @ e2"]) simp
  qed
qed

lemma acts_total_try:
  assumes "acts Q m" and "\<And>e. acts_total Q (h e)"
  shows "acts_total Q (try_except m h)"
proof -
  from assms(1) obtain r e1 where m: "m = writes r e1" "list_all Q e1"
    by (auto simp: acts_def)
  show ?thesis
  proof (cases r)
    case (Inr x)
    with m show ?thesis by (auto simp: acts_total_def try_writes_Inr)
  next
    case (Inl e)
    from assms(2) [of e] obtain y e2 where f: "h e = writes (Inr y) e2" "list_all Q e2"
      by (auto simp: acts_total_def)
    from try_writes_Inl [where h = h and e = e and ?e1.0 = e1, OF f(1)] m Inl f(2) show ?thesis
      unfolding acts_total_def by (intro exI [of _ y] exI [of _ "e1 @ e2"]) simp
  qed
qed

lemmas acts_intros = acts_ret acts_perform acts_query acts_bnd acts_try
lemmas acts_total_intros = acts_total_ret acts_total_bnd acts_total_try acts_search_page

lemma get_email_field_total:
  assumes "Q FindDeliveryOnly" "\<And>f. Q (WaitClickable f)"
  shows "acts_total Q (get_email_field env)"
  unfolding get_email_field_def Let_def
  by (intro acts_total_try acts_bnd acts_try acts_query acts_perform acts_ret acts_total_ret assms)

lemma paste_email_total:
  assumes "Q FindDeliveryOnly" "\<And>f. Q (WaitClickable f)" "\<And>f. Q (ScrollTo f)"
    "\<And>f. Q (ClearField f)" "\<And>f s. Q (TypeText f s)" "\<And>f. Q (ReadBack f)"
    "\<And>s. Q (ClipboardCopy s)" "\<And>f. Q (PasteKeys f)"
  shows "acts_total Q (paste_email env email)"
proof -
  have g: "acts Q (get_email_field env)"
    by (rule acts_totalD [OF get_email_field_total]) (rule assms)+
  have "acts Q (bnd (get_email_field env)
          (\<lambda>email_field. case email_field of
              None \<Rightarrow> ret False
            | Some f \<Rightarrow>
                bnd (perform (ScrollTo f) (scroll_field env)) (\<lambda>_.
                bnd (perform (ClearField f) (clear_first env)) (\<lambda>_.
                bnd (perform (TypeText f email) (type_keys env)) (\<lambda>_.
                bnd (query (ReadBack f) (readback_first env)) (\<lambda>rb.
                  if strip (current_value rb) = email then ret True
                  else
                    bnd (perform (ClipboardCopy email) (clipboard_copy env)) (\<lambda>_.
                    bnd (perform (ClearField f) (clear_second env)) (\<lambda>_.
                    bnd (perform (PasteKeys f) (paste_keys env)) (\<lambda>_.
                    bnd (query (ReadBack f) (readback_second env)) (\<lambda>rb2.
                      ret (strip (current_value rb2) = email)))))))))))"
    apply (rule acts_bnd [OF g])
    subgoal for x
      by (cases x) (auto intro!: acts_intros assms)
    done
  then show ?thesis
    unfolding paste_email_def by (rule acts_total_try) (rule acts_total_ret)
qed

lemma paste_email_inner: "acts_total inner_action (paste_email env email)"
  by (rule paste_email_total) simp_all

lemma create_step_inner: "acts_total inner_action (create_step env wc)"
  unfolding create_step_def
  by (auto intro!: acts_total_intros acts_intros paste_email_inner
      acts_totalD [OF paste_email_inner] acts_totalD [OF acts_search_page]
      split: option.splits)

lemma fill_workflow_inner: "acts_total inner_action (fill_workflow env)"
  unfolding fill_workflow_def
  by (auto intro!: acts_total_intros acts_intros paste_email_inner create_step_inner
      split: option.splits)


lemma is_installer_writes:
  "is_installer_checkin_task env =
     writes (Inr (installer_found env = Inr True)) [FindInstallerCheckin]"
  by (rule ext)
     (auto simp: is_installer_checkin_task_def try_except_def query_def ret_def writes_def
           split: sum.splits)


lemma check_fields_writes:
  "\<exists>r n. check_fields rd sels = writes (Inr r) (map ReadEmailField (take n sels)) \<and>
     (py_truthy r \<longrightarrow>
        (\<exists>sel fc. sel \<in> set sels \<and> rd sel = Inr fc \<and> field_value_ok (email_value_of fc) \<and>
           r = Some (email_value_of fc)))"
proof (induction sels)
  case Nil
  show ?case
    by (intro exI [of _ None] exI [of _ 0]) (simp add: ret_writes py_truthy_def)
next
  case (Cons sel sels)
  then obtain r n where ih: "check_fields rd sels = writes (Inr r) (map ReadEmailField (take n sels))"
    "py_truthy r \<longrightarrow>
        (\<exists>sel fc. sel \<in> set sels \<and> rd sel = Inr fc \<and> field_value_ok (email_value_of fc) \<and>
           r = Some (email_value_of fc))" by blast
  have go_on: "check_fields rd (sel # sels) =
       writes (Inr r) (map ReadEmailField (take (Suc n) (sel # sels)))"
    if "\<forall>fc. rd sel = Inr fc \<longrightarrow> \<not> field_value_ok (email_value_of fc)"
    using that ih(1)
    by (intro ext)
       (auto simp: try_except_def bnd_def query_def ret_def writes_def Let_def split: sum.splits)
  show ?case
  proof (cases "\<exists>fc. rd sel = Inr fc \<and> field_value_ok (email_value_of fc)")
    case True
    then obtain fc where fc: "rd sel = Inr fc" "field_value_ok (email_value_of fc)" by blast
    then have "check_fields rd (sel # sels) =
       writes (Inr (Some (email_value_of fc))) (map ReadEmailField (take 1 (sel # sels)))"
      by (intro ext)
         (simp add: try_except_def bnd_def query_def ret_def writes_def Let_def)
    with fc show ?thesis
      by (intro exI [of _ "Some (email_value_of fc)"] exI [of _ 1]) auto
  next
    case False
    then have "check_fields rd (sel # sels) =
       writes (Inr r) (map ReadEmailField (take (Suc n) (sel # sels)))"
      by (intro go_on) auto
    with ih(2) show ?thesis
      by (intro exI [of _ r] exI [of _ "Suc n"]) auto
  qed
qed

lemma check_email_field_content_writes:
  "\<exists>r n. check_email_field_content env =
       writes (Inr r) (map ReadEmailField (take n selectors)) \<and>
     (py_truthy r \<longrightarrow>
        (\<exists>sel fc. field_reads env sel = Inr fc \<and> field_value_ok (email_value_of fc) \<and>
           r = Some (email_value_of fc)))"
proof -
  from check_fields_writes [of "field_reads env" selectors] obtain r n where
    c: "check_fields (field_reads env) selectors =
          writes (Inr r) (map ReadEmailField (take n selectors))"
    and t: "py_truthy r \<longrightarrow>
        (\<exists>sel fc. sel \<in> set selectors \<and> field_reads env sel = Inr fc \<and>
           field_value_ok (email_value_of fc) \<and> r = Some (email_value_of fc))" by blast
  from c have "check_email_field_content env =
       writes (Inr r) (map ReadEmailField (take n selectors))"
    by (simp add: check_email_field_content_def try_writes_Inr)
  with t show ?thesis by blast
qed


lemma process_task_unfold:
  assumes ce: "check_email_field_content env = writes (Inr ex) rd"
    and fw: "fill_workflow env = writes (Inr ()) fe"
  shows "process_task env j w =
    (case rows_found env of
       Inl e \<Rightarrow> (Inr (Failed e), w\<lparr>trace := trace w @ [BeginTask j, FindTaskRows j]\<rparr>)
     | Inr rows \<Rightarrow>
        if \<not> rows then (Inr NotFound, w\<lparr>trace := trace w @ [BeginTask j, FindTaskRows j]\<rparr>)
        else (case link_click env of
           Some e \<Rightarrow> (Inr (Failed e),
                      w\<lparr>trace := trace w @ [BeginTask j, FindTaskRows j, ClickTaskLink]\<rparr>)
         | None \<Rightarrow>
            if installer_found env = Inr True
            then (case close_click env of
                Some e \<Rightarrow> (Inr (Failed e),
                   w\<lparr>trace := trace w @ [BeginTask j, FindTaskRows j, ClickTaskLink,
                                          FindInstallerCheckin, ClickClose]\<rparr>)
              | None \<Rightarrow> (Inr SkippedInstallerCheckin,
                   w\<lparr>tracker_file := saved_file env j w,
                     trace := trace w @ [BeginTask j, FindTaskRows j, ClickTaskLink,
                                          FindInstallerCheckin, ClickClose, SaveTracker j]\<rparr>))
            else if py_truthy ex
            then (case close_click env of
                Some e \<Rightarrow> (Inr (Failed e),
                   w\<lparr>trace := trace w @ [BeginTask j, FindTaskRows j, ClickTaskLink,
                                          FindInstallerCheckin] @ rd @ [ClickClose]\<rparr>)
              | None \<Rightarrow> (Inr SkippedExistingEmail,
                   w\<lparr>tracker_file := saved_file env j w,
                     trace := trace w @ [BeginTask j, FindTaskRows j, ClickTaskLink,
                                          FindInstallerCheckin] @ rd @
                                         [ClickClose, SaveTracker j]\<rparr>))
            else (Inr Filled,
                   w\<lparr>tracker_file := saved_file env j w,
                     trace := trace w @ [BeginTask j, FindTaskRows j, ClickTaskLink,
                                          FindInstallerCheckin] @ rd @ fe @
                                         [ClickUpdate, SaveTracker j, ClickClose]\<rparr>)))"
  unfolding process_task_def task_body_def is_installer_writes ce fw saved_file_def
  by (simp add: bnd_def try_except_def perform_def query_def ret_def writes_def
        tracker_save_eq split: sum.splits option.splits)


lemma attempted_append: "attempted (xs @ ys) = attempted xs @ attempted ys"
  by (induction xs rule: attempted.induct) simp_all

lemma saved_append: "saved (xs @ ys) = saved xs @ saved ys"
  by (induction xs rule: saved.induct) simp_all

lemma attempted_inner: "list_all inner_action xs \<Longrightarrow> attempted xs = []"
  by (induction xs rule: attempted.induct) simp_all

lemma saved_inner: "list_all inner_action xs \<Longrightarrow> saved xs = []"
  by (induction xs rule: saved.induct) simp_all

lemma inner_reads: "list_all inner_action (map ReadEmailField sels)"
  by (induction sels) simp_all


lemma process_task_effect_case:
  "(case process_task env j w of
      (Inl e, w') \<Rightarrow> False
    | (Inr out, w') \<Rightarrow>
        attempted (trace w') = attempted (trace w) @ [j] \<and>
        saved (trace w') = saved (trace w) @ (if stepped_through out then [j] else []) \<and>
        tracker_file w' = (if stepped_through out then saved_file env j w else tracker_file w))"
proof -
  from check_email_field_content_writes [of env] obtain ex n where
    ce: "check_email_field_content env = writes (Inr ex) (map ReadEmailField (take n selectors))"
    by blast
  from fill_workflow_inner [of env] obtain fe where
    fw: "fill_workflow env = writes (Inr ()) fe" and fe: "list_all inner_action fe"
    by (auto simp: acts_total_def)
  note rd = inner_reads [of "take n selectors"]
  show ?thesis
    unfolding process_task_unfold [OF ce fw]
    using fe rd
    by (simp add: attempted_append saved_append attempted_inner saved_inner
          split: sum.splits option.splits)
qed

lemma process_task_effect:
  "\<exists>out w'. process_task env j w = (Inr out, w') \<and>
     attempted (trace w') = attempted (trace w) @ [j] \<and>
     saved (trace w') = saved (trace w) @ (if stepped_through out then [j] else []) \<and>
     tracker_file w' = (if stepped_through out then saved_file env j w else tracker_file w)"
  using process_task_effect_case [where env = env and j = j and w = w]
  by (cases "process_task env j w"; cases "fst (process_task env j w)") auto

lemma run_tasks_effect:
  "\<exists>outs w'. run_tasks envs ids w = (Inr outs, w') \<and> map fst outs = ids \<and>
     attempted (trace w') = attempted (trace w) @ ids \<and>
     saved (trace w') = saved (trace w) @ map fst (filter (\<lambda>p. stepped_through (snd p)) outs) \<and>
     (filter (\<lambda>p. stepped_through (snd p)) outs = [] \<longrightarrow> tracker_file w' = tracker_file w) \<and>
     (filter (\<lambda>p. stepped_through (snd p)) outs \<noteq> [] \<and>
      tracker_write (envs (fst (last (filter (\<lambda>p. stepped_through (snd p)) outs)))) = Written \<longrightarrow>
        tracker_file w' =
          watermark_file (fst (last (filter (\<lambda>p. stepped_through (snd p)) outs))))"
proof (induction ids arbitrary: w)
  case Nil
  show ?case by (simp add: ret_def)
next
  case (Cons j ids)
  from process_task_effect [of "envs j" j w] obtain out w1 where
    p: "process_task (envs j) j w = (Inr out, w1)"
       "attempted (trace w1) = attempted (trace w) @ [j]"
       "saved (trace w1) = saved (trace w) @ (if stepped_through out then [j] else [])"
       "tracker_file w1 = (if stepped_through out then saved_file (envs j) j w else tracker_file w)"
    by blast
  from Cons [of w1] obtain outs w' where
    r: "run_tasks envs ids w1 = (Inr outs, w')" "map fst outs = ids"
       "attempted (trace w') = attempted (trace w1) @ ids"
       "saved (trace w') = saved (trace w1) @ map fst (filter (\<lambda>p. stepped_through (snd p)) outs)"
       "filter (\<lambda>p. stepped_through (snd p)) outs = [] \<longrightarrow> tracker_file w' = tracker_file w1"
       "filter (\<lambda>p. stepped_through (snd p)) outs \<noteq> [] \<and>
        tracker_write (envs (fst (last (filter (\<lambda>p. stepped_through (snd p)) outs)))) = Written \<longrightarrow>
        tracker_file w' =
          watermark_file (fst (last (filter (\<lambda>p. stepped_through (snd p)) outs)))"
    by blast
  have run: "run_tasks envs (j # ids) w = (Inr ((j, out) # outs), w')"
    using p(1) r(1) by (simp add: bnd_def ret_def)
  have sf: "tracker_write (envs j) = Written \<Longrightarrow> saved_file (envs j) j w = watermark_file j"
    by (simp add: saved_file_def save_job_tracker_def watermark_file_def)
  show ?case
    unfolding run
    using p(2-4) r(2-6) sf
    by (intro exI [of _ "(j, out) # outs"] exI [of _ w']) auto
qed



lemma main_workflow_unfold:
  assumes "fst (load_job_tracker (tracker_file w)) = Inr wm"
  shows "main_workflow env w =
    (case listing env of
       Inl e \<Rightarrow> (Inl e, w\<lparr>trace := trace w @ [OpenTaskList, Quit]\<rparr>)
     | Inr None \<Rightarrow> (Inr [], w\<lparr>trace := trace w @ [OpenTaskList, Quit]\<rparr>)
     | Inr (Some first_row) \<Rightarrow>
         (case run_tasks (tasks env) [wm..first_row] (w\<lparr>trace := trace w @ [OpenTaskList]\<rparr>) of
            (r, w') \<Rightarrow> (r, w'\<lparr>trace := trace w' @ [Quit]\<rparr>)))"
  using assms
  by (simp add: main_workflow_def main_body_def tracker_load_def bnd_def query_def ret_def
        split: sum.splits option.splits)

lemma attempted_set: "j \<in> set (attempted t) \<longleftrightarrow> BeginTask j \<in> set t"
  by (induction t rule: attempted.induct) auto

lemma sorted_stepped_ids:
  assumes "map fst outs = [a..n]"
  shows "sorted (stepped_ids outs) \<and> distinct (stepped_ids outs) \<and>
         set (stepped_ids outs) \<subseteq> {a..n}"
proof -
  have "sorted (map fst outs)" "distinct (map fst outs)" "set (map fst outs) = {a..n}"
    unfolding assms by simp_all
  then show ?thesis
    unfolding stepped_ids_def
    by (auto simp: sorted_filter distinct_map_filter)
qed

lemma main_workflow_run:
  assumes "fst (load_job_tracker fs) = Inr wm" and "listing env = Inr (Some first_row)"
  shows "\<exists>outs w'. main_workflow env (start_world fs) = (Inr outs, w') \<and>
           map fst outs = [wm..first_row] \<and>
           attempted (trace w') = [wm..first_row] \<and>
           saved (trace w') = stepped_ids outs"
proof -
  let ?w1 = "(start_world fs)\<lparr>trace := trace (start_world fs) @ [OpenTaskList]\<rparr>"
  from run_tasks_effect [of "tasks env" "[wm..first_row]" ?w1] obtain outs w' where
    r: "run_tasks (tasks env) [wm..first_row] ?w1 = (Inr outs, w')"
       "map fst outs = [wm..first_row]"
       "attempted (trace w') = attempted (trace ?w1) @ [wm..first_row]"
       "saved (trace w') = saved (trace ?w1) @ map fst (filter (\<lambda>p. stepped_through (snd p)) outs)"
    by blast
  have m: "main_workflow env (start_world fs) = (Inr outs, w'\<lparr>trace := trace w' @ [Quit]\<rparr>)"
    using assms r(1)
    by (subst main_workflow_unfold [where wm = wm]) (simp_all add: start_world_def)
  show ?thesis
    unfolding m using r(2-4)
    by (intro exI [of _ outs] exI [of _ "w'\<lparr>trace := trace w' @ [Quit]\<rparr>"])
       (simp add: attempted_append saved_append start_world_def stepped_ids_def)
qed

text \<open>
  Claim C1, as the code has it. A fresh run that loads the watermark \<^term>\<open>wm\<close> and finds
  the first row's job id \<^term>\<open>first_row\<close> attempts exactly the ids
  \<^term>\<open>[wm..first_row]\<close>, in order: every attempted id is at least \<^term>\<open>wm\<close> (not
  strictly greater), and \<^term>\<open>wm\<close> itself, the id recorded as last handled by the prior
  run, is attempted again first whenever \<^term>\<open>wm \<le> first_row\<close>.
\<close>

theorem loop_starts_at_watermark:
  assumes "fst (load_job_tracker fs) = Inr wm" and "listing env = Inr (Some first_row)"
  shows "attempted (trace (snd (main_workflow env (start_world fs)))) = [wm..first_row] \<and>
         (\<forall>j. BeginTask j \<in> set (trace (snd (main_workflow env (start_world fs)))) \<longleftrightarrow>
              wm \<le> j \<and> j \<le> first_row) \<and>
         (wm \<le> first_row \<longrightarrow>
            hd (attempted (trace (snd (main_workflow env (start_world fs))))) = wm)"
proof -
  from main_workflow_run [OF assms] obtain outs w' where
    m: "main_workflow env (start_world fs) = (Inr outs, w')"
       "attempted (trace w') = [wm..first_row]" by blast
  have a: "attempted (trace (snd (main_workflow env (start_world fs)))) = [wm..first_row]"
    using m by simp
  have b: "BeginTask j \<in> set (trace (snd (main_workflow env (start_world fs)))) \<longleftrightarrow>
              wm \<le> j \<and> j \<le> first_row" for j
    using attempted_set [of j "trace (snd (main_workflow env (start_world fs)))"]
    unfolding a by simp
  have c: "hd [wm..first_row] = wm" if "wm \<le> first_row"
    using that by (simp add: upto_rec1)
  from a b c show ?thesis by simp
qed














lemma saved_file_after_save:
  "saved_file env j w = after_save (tracker_write env) j (tracker_file w)"
  by (simp add: saved_file_def after_save_def)

lemma file_after_Cons:
  "file_after envs (j # js) fs = file_after envs js (after_save (tracker_write (envs j)) j fs)"
  by (simp add: file_after_def)

lemma file_after_Nil: "file_after envs [] fs = fs"
  by (simp add: file_after_def)

lemma run_tasks_file:
  "\<exists>outs w'. run_tasks envs ids w = (Inr outs, w') \<and>
     tracker_file w' = file_after envs (stepped_ids outs) (tracker_file w)"
proof (induction ids arbitrary: w)
  case Nil
  show ?case by (simp add: ret_def stepped_ids_def file_after_Nil)
next
  case (Cons j ids)
  from process_task_effect [of "envs j" j w] obtain out w1 where
    p: "process_task (envs j) j w = (Inr out, w1)"
       "tracker_file w1 = (if stepped_through out then saved_file (envs j) j w else tracker_file w)"
    by blast
  from Cons [of w1] obtain outs w' where
    r: "run_tasks envs ids w1 = (Inr outs, w')"
       "tracker_file w' = file_after envs (stepped_ids outs) (tracker_file w1)"
    by blast
  have run: "run_tasks envs (j # ids) w = (Inr ((j, out) # outs), w')"
    using p(1) r(1) by (simp add: bnd_def ret_def)
  have "tracker_file w' = file_after envs (stepped_ids ((j, out) # outs)) (tracker_file w)"
    using p(2) r(2)
    by (simp add: stepped_ids_def file_after_Cons saved_file_after_save)
  with run show ?case by blast
qed

lemma after_save_cases:
  "after_save Written j fs = Holds (JObj [(''last_index'', JInt j)])"
  "after_save (OpenFailed e) j fs = fs"
  "after_save (DumpFailed e) j fs = Unreadable JSONDecodeError"
  by (simp_all add: after_save_def save_job_tracker_def)

text \<open>
  Claim C8. The loop over \<^term>\<open>[a..n]\<close> always returns; the values it passes to
  \<^verbatim>\<open>save_job_tracker\<close> are exactly the job ids of the iterations that stepped through, in
  order, so they are increasing and lie in the range. The state file at the end is the
  result of those calls in turn, where a successful write leaves the job id, a failed
  \<^verbatim>\<open>open\<close> leaves the file as it was and a failed \<^verbatim>\<open>json.dump\<close> leaves a file that does
  not parse; so it holds, and loads as, the last id that stepped through (which need not be
  the last id attempted) when the write for that id succeeded. Over a whole run from a
  fresh start the sequence of saved values is sorted.
\<close>

theorem saved_ids_increasing:
  "(\<exists>outs w'. run_tasks envs [a..n] w = (Inr outs, w') \<and> map fst outs = [a..n] \<and>
      saved (trace w') = saved (trace w) @ stepped_ids outs \<and>
      sorted (stepped_ids outs) \<and> distinct (stepped_ids outs) \<and>
      set (stepped_ids outs) \<subseteq> {a..n} \<and>
      tracker_file w' = file_after envs (stepped_ids outs) (tracker_file w) \<and>
      (stepped_ids outs \<noteq> [] \<and> tracker_write (envs (last (stepped_ids outs))) = Written \<longrightarrow>
         tracker_file w' = Holds (JObj [(''last_index'', JInt (last (stepped_ids outs)))]) \<and>
         fst (load_job_tracker (tracker_file w')) = Inr (last (stepped_ids outs)))) \<and>
   sorted (saved (trace (snd (main_workflow env (start_world fs))))) \<and>
   after_save Written j fs = Holds (JObj [(''last_index'', JInt j)]) \<and>
   after_save (OpenFailed e) j fs = fs \<and>
   after_save (DumpFailed e) j fs = Unreadable JSONDecodeError"
proof -
  let ?st = "filter (\<lambda>p. stepped_through (snd p))"
  from run_tasks_effect [of envs "[a..n]" w] obtain outs w' where
    r: "run_tasks envs [a..n] w = (Inr outs, w')" "map fst outs = [a..n]"
       "saved (trace w') = saved (trace w) @ map fst (?st outs)"
       "?st outs \<noteq> [] \<and> tracker_write (envs (fst (last (?st outs)))) = Written \<longrightarrow>
          tracker_file w' = watermark_file (fst (last (?st outs)))"
    by blast
  from run_tasks_file [of envs "[a..n]" w] r(1) have
    fa: "tracker_file w' = file_after envs (stepped_ids outs) (tracker_file w)" by auto
  have sv: "saved (trace w') = saved (trace w) @ stepped_ids outs"
    using r(3) by (simp add: stepped_ids_def)
  have ld: "fst (load_job_tracker (watermark_file k)) = Inr k" for k
    by (simp add: watermark_file_def load_job_tracker_def path_exists_def load_try_body_def)
  from sorted_stepped_ids [OF r(2)] have s: "sorted (stepped_ids outs)"
    "distinct (stepped_ids outs)" "set (stepped_ids outs) \<subseteq> {a..n}" by simp_all
  have wr: "stepped_ids outs \<noteq> [] \<and> tracker_write (envs (last (stepped_ids outs))) = Written \<longrightarrow>
         tracker_file w' = Holds (JObj [(''last_index'', JInt (last (stepped_ids outs)))]) \<and>
         fst (load_job_tracker (tracker_file w')) = Inr (last (stepped_ids outs))"
  proof
    assume h: "stepped_ids outs \<noteq> [] \<and>
               tracker_write (envs (last (stepped_ids outs))) = Written"
    then have ne: "?st outs \<noteq> []" by (auto simp: stepped_ids_def)
    then have l: "last (stepped_ids outs) = fst (last (?st outs))"
      by (simp add: stepped_ids_def last_map)
    from h r(4) ne have "tracker_file w' = watermark_file (last (stepped_ids outs))"
      unfolding l by blast
    with ld [of "last (stepped_ids outs)"]
    show "tracker_file w' = Holds (JObj [(''last_index'', JInt (last (stepped_ids outs)))]) \<and>
         fst (load_job_tracker (tracker_file w')) = Inr (last (stepped_ids outs))"
      by (simp add: watermark_file_def)
  qed
  have one: "\<exists>outs w'. run_tasks envs [a..n] w = (Inr outs, w') \<and> map fst outs = [a..n] \<and>
      saved (trace w') = saved (trace w) @ stepped_ids outs \<and>
      sorted (stepped_ids outs) \<and> distinct (stepped_ids outs) \<and>
      set (stepped_ids outs) \<subseteq> {a..n} \<and>
      tracker_file w' = file_after envs (stepped_ids outs) (tracker_file w) \<and>
      (stepped_ids outs \<noteq> [] \<and> tracker_write (envs (last (stepped_ids outs))) = Written \<longrightarrow>
         tracker_file w' = Holds (JObj [(''last_index'', JInt (last (stepped_ids outs)))]) \<and>
         fst (load_job_tracker (tracker_file w')) = Inr (last (stepped_ids outs)))"
    by (intro exI [of _ outs] exI [of _ w'] conjI; fact)
  from load_never_raises [of fs] obtain wm where wm: "fst (load_job_tracker fs) = Inr wm"
    by auto
  have two: "sorted (saved (trace (snd (main_workflow env (start_world fs)))))"
  proof (cases "listing env")
    case (Inl e)
    with wm show ?thesis
      by (subst main_workflow_unfold [where wm = wm]) (simp_all add: start_world_def)
  next
    case (Inr cells)
    show ?thesis
    proof (cases cells)
      case None
      with Inr wm show ?thesis
        by (subst main_workflow_unfold [where wm = wm]) (simp_all add: start_world_def)
    next
      case (Some first_row)
      with Inr have "listing env = Inr (Some first_row)" by simp
      from main_workflow_run [OF wm this] obtain outs w' where
        m: "main_workflow env (start_world fs) = (Inr outs, w')"
           "map fst outs = [wm..first_row]" "saved (trace w') = stepped_ids outs" by blast
      from sorted_stepped_ids [OF m(2)] m(1,3) show ?thesis by simp
    qed
  qed
  show ?thesis
    by (intro conjI; (fact one two | rule after_save_cases))
qed

section \<open>The workflow on the example environments\<close>

lemma strip_empty: "strip [] = []"
  by (simp add: strip_def)

lemma bob_ok: "field_value_ok ''bob@client.com''"
  by code_simp

lemma empty_not_ok: "\<not> field_value_ok []"
  by (simp add: field_value_ok_def is_valid_email_def)

lemma strip_bob: "strip ''bob@client.com'' = ''bob@client.com''"
  by code_simp

lemma strip_job: "strip ''job3422@x.aroflo.com'' = ''job3422@x.aroflo.com''"
  by code_simp

lemma strip_default: "strip ''default@aroflo.com'' = ''default@aroflo.com''"
  by code_simp

lemma page_job:
  "search_aroflo_email_in_page (Inr ''<td>Email: job3422@x.aroflo.com</td>'')
     = Some ''job3422@x.aroflo.com''"
  by code_simp

lemma page_task: "search_aroflo_email_in_page (Inr ''<html><body>Task</body></html>'') = None"
  by code_simp

lemma page_created:
  "search_aroflo_email_in_page (Inr ''<html><body>Created</body></html>'') = None"
  by code_simp

lemmas run_defs = process_task_def task_body_def is_installer_checkin_task_def
  check_email_field_content_def selectors_def email_value_of_def py_or_def py_truthy_def
  fill_workflow_def create_step_def search_page_def paste_email_def get_email_field_def
  current_value_def default_email_def tracker_save_def save_job_tracker_def
  bnd_def try_except_def perform_def query_def ret_def Let_def

lemmas env_defs = plain_task_def plain_fill_def checkin_task_def filled_task_def
  no_workflow_task_def broken_link_task_def absent_task_def no_email_task_def
  stubborn_fill_def

lemmas str_facts = strip_empty bob_ok empty_not_ok strip_bob strip_job strip_default
  page_job page_task page_created

lemma run_checkin:
  "process_task checkin_task j w =
     (Inr SkippedInstallerCheckin,
      w\<lparr>tracker_file := watermark_file j,
        trace := trace w @ [BeginTask j, FindTaskRows j, ClickTaskLink, FindInstallerCheckin,
                            ClickClose, SaveTracker j]\<rparr>)"
  by (simp add: run_defs env_defs watermark_file_def)

lemma run_filled:
  "process_task filled_task j w =
     (Inr SkippedExistingEmail,
      w\<lparr>tracker_file := watermark_file j,
        trace := trace w @ [BeginTask j, FindTaskRows j, ClickTaskLink, FindInstallerCheckin,
                            ReadEmailField Textarea15, ClickClose, SaveTracker j]\<rparr>)"
  by (simp add: run_defs env_defs watermark_file_def str_facts)

lemma run_plain:
  "process_task plain_task j w =
     (Inr Filled,
      w\<lparr>tracker_file := watermark_file j,
        trace := trace w @ [BeginTask j, FindTaskRows j, ClickTaskLink, FindInstallerCheckin,
           ReadEmailField Textarea15, ReadEmailField Input15, ReadEmailField Textarea16,
           ReadEmailField Input16, ClickWorkflow, ReadPageSource, FindDeliveryOnly,
           WaitClickable Field16, ScrollTo Field16, ClearField Field16,
           TypeText Field16 ''job3422@x.aroflo.com'', ReadBack Field16, ClickUpdate,
           SaveTracker j, ClickClose]\<rparr>)"
  by (simp add: run_defs env_defs watermark_file_def str_facts)

lemma run_no_workflow:
  "process_task no_workflow_task j w =
     (Inr Filled,
      w\<lparr>tracker_file := watermark_file j,
        trace := trace w @ [BeginTask j, FindTaskRows j, ClickTaskLink, FindInstallerCheckin,
           ReadEmailField Textarea15, ReadEmailField Input15, ReadEmailField Textarea16,
           ReadEmailField Input16, ClickWorkflow, ReadPageSource, FindDeliveryOnly,
           WaitClickable Field16, ScrollTo Field16, ClearField Field16,
           TypeText Field16 ''default@aroflo.com'', ReadBack Field16, ClickUpdate,
           SaveTracker j, ClickClose]\<rparr>)"
  by (simp add: run_defs env_defs watermark_file_def str_facts)

lemma run_broken_link:
  "process_task broken_link_task j w =
     (Inr (Failed NoSuchElementException),
      w\<lparr>trace := trace w @ [BeginTask j, FindTaskRows j, ClickTaskLink]\<rparr>)"
  by (simp add: run_defs env_defs)

lemma run_absent:
  "process_task absent_task j w =
     (Inr NotFound, w\<lparr>trace := trace w @ [BeginTask j, FindTaskRows j]\<rparr>)"
  by (simp add: run_defs env_defs)

lemma upto_scenario: "[3420..3425] = [3420, 3421, 3422, 3423, 3424, 3425]"
  by (simp add: upto_rec1)

lemma run_scenario:
  "run_tasks scenario [3420..3425] (start_world NoFile) =
     (Inr [(3420, SkippedInstallerCheckin), (3421, SkippedExistingEmail), (3422, Filled),
           (3423, Filled), (3424, Failed NoSuchElementException), (3425, NotFound)],
      snd (run_tasks scenario [3420..3425] (start_world NoFile)))"
  by (simp add: upto_scenario scenario_def run_checkin run_filled run_plain run_no_workflow
        run_broken_link run_absent bnd_def ret_def)


lemma load_watermark_file: "fst (load_job_tracker (watermark_file k)) = Inr k"
  by (simp add: watermark_file_def load_job_tracker_def path_exists_def load_try_body_def)

theorem loop_starts_at_watermark_witness:
  "fst (load_job_tracker (watermark_file 3420)) = Inr 3420 \<and>
   listing scenario_run = Inr (Some 3425) \<and>
   attempted (trace (snd (main_workflow scenario_run (start_world (watermark_file 3420)))))
     = [3420, 3421, 3422, 3423, 3424, 3425] \<and>
   hd (attempted (trace (snd (main_workflow scenario_run (start_world (watermark_file 3420))))))
     = 3420"
proof -
  have h1: "fst (load_job_tracker (watermark_file 3420)) = Inr 3420"
    by (rule load_watermark_file)
  have h2: "listing scenario_run = Inr (Some 3425)"
    by (simp add: scenario_run_def)
  from loop_starts_at_watermark [OF h1 h2] h1 h2 show ?thesis
    by (simp add: upto_scenario)
qed

text \<open>
  The claim as first stated fails: with the watermark 3420 on file and 3425 in the first
  row, the run attempts job 3420 again.
\<close>

theorem watermark_reattempted:
  "fst (load_job_tracker (watermark_file 3420)) = Inr 3420 \<and>
   BeginTask 3420 \<in> set (trace (snd (main_workflow scenario_run
                                        (start_world (watermark_file 3420))))) \<and>
   \<not> (3420 < (3420 :: int))"
proof -
  have h1: "fst (load_job_tracker (watermark_file 3420)) = Inr 3420"
    by (rule load_watermark_file)
  have h2: "listing scenario_run = Inr (Some 3425)"
    by (simp add: scenario_run_def)
  from main_workflow_run [OF h1 h2] have
    "attempted (trace (snd (main_workflow scenario_run (start_world (watermark_file 3420)))))
       = [3420..3425]" by auto
  then have "3420 \<in> set (attempted (trace (snd (main_workflow scenario_run
                                        (start_world (watermark_file 3420))))))"
    by (simp add: upto_scenario)
  with h1 show ?thesis by (simp add: attempted_set)
qed


lemmas env_defs2 = env_defs stuck_checkin_task_def unsaved_checkin_task_def unsaved_run_def
  no_field_task_def


lemma run_unsaved_checkin:
  "process_task unsaved_checkin_task j w =
     (Inr SkippedInstallerCheckin,
      w\<lparr>trace := trace w @ [BeginTask j, FindTaskRows j, ClickTaskLink, FindInstallerCheckin,
                            ClickClose, SaveTracker j]\<rparr>)"
  by (simp add: run_defs env_defs2)




lemma upto_single: "[3420..3420] = [3420 :: int]"
  by (simp add: upto_rec1)

text \<open>
  The claim as first stated fails when a write is swallowed: job 3420 steps through and
  3420 is passed to \<^verbatim>\<open>save_job_tracker\<close>, but the state file cannot be opened for writing
  and still loads as 3419.
\<close>

theorem watermark_lost_on_failed_write:
  "fst (load_job_tracker (watermark_file 3419)) = Inr 3419 \<and>
   fst (run_tasks unsaved_run [3420..3420] (start_world (watermark_file 3419)))
     = Inr [(3420, SkippedInstallerCheckin)] \<and>
   stepped_ids [(3420, SkippedInstallerCheckin)] = [3420] \<and>
   saved (trace (snd (run_tasks unsaved_run [3420..3420] (start_world (watermark_file 3419)))))
     = [3420] \<and>
   tracker_file (snd (run_tasks unsaved_run [3420..3420] (start_world (watermark_file 3419))))
     = Holds (JObj [(''last_index'', JInt 3419)]) \<and>
   fst (load_job_tracker (tracker_file (snd (run_tasks unsaved_run [3420..3420]
                                               (start_world (watermark_file 3419))))))
     = Inr 3419"
  by (simp add: upto_single unsaved_run_def run_unsaved_checkin bnd_def ret_def start_world_def
        load_watermark_file stepped_ids_def watermark_file_def [symmetric])




text \<open>The saved values of the example run over the job ids 3420 to 3425.\<close>

theorem saved_ids_increasing_witness:
  "fst (run_tasks scenario [3420..3425] (start_world NoFile)) =
     Inr [(3420, SkippedInstallerCheckin), (3421, SkippedExistingEmail), (3422, Filled),
          (3423, Filled), (3424, Failed NoSuchElementException), (3425, NotFound)] \<and>
   stepped_ids [(3420, SkippedInstallerCheckin), (3421, SkippedExistingEmail), (3422, Filled),
          (3423, Filled), (3424, Failed NoSuchElementException), (3425, NotFound)]
     = [3420, 3421, 3422, 3423] \<and>
   tracker_write (scenario 3423) = Written \<and>
   saved (trace (snd (run_tasks scenario [3420..3425] (start_world NoFile))))
     = [3420, 3421, 3422, 3423] \<and>
   tracker_file (snd (run_tasks scenario [3420..3425] (start_world NoFile)))
     = Holds (JObj [(''last_index'', JInt 3423)]) \<and>
   fst (load_job_tracker (tracker_file (snd (run_tasks scenario [3420..3425]
                                               (start_world NoFile))))) = Inr 3423 \<and>
   sorted (saved (trace (snd (main_workflow scenario_run (start_world NoFile)))))"
proof -
  let ?outs = "[(3420, SkippedInstallerCheckin), (3421, SkippedExistingEmail), (3422, Filled),
          (3423, Filled), (3424, Failed NoSuchElementException), (3425, NotFound)]"
  have st: "stepped_ids ?outs = [3420, 3421, 3422, 3423]"
    by (simp add: stepped_ids_def)
  have wr: "tracker_write (scenario 3423) = Written"
    by (simp add: scenario_def env_defs)
  note inst = saved_ids_increasing [where envs = scenario and a = 3420 and n = 3425
               and w = "start_world NoFile" and env = scenario_run and fs = NoFile]
  from inst obtain outs w' where
    r: "run_tasks scenario [3420..3425] (start_world NoFile) = (Inr outs, w')"
       "saved (trace w') = saved (trace (start_world NoFile)) @ stepped_ids outs"
       "stepped_ids outs \<noteq> [] \<and> tracker_write (scenario (last (stepped_ids outs))) = Written \<longrightarrow>
         tracker_file w' = Holds (JObj [(''last_index'', JInt (last (stepped_ids outs)))]) \<and>
         fst (load_job_tracker (tracker_file w')) = Inr (last (stepped_ids outs))"
    by blast
  from inst have so: "sorted (saved (trace (snd (main_workflow scenario_run
                                                (start_world NoFile)))))"
    by blast
  from r(1) run_scenario have o: "outs = ?outs" by simp
  have a1: "fst (run_tasks scenario [3420..3425] (start_world NoFile)) = Inr ?outs"
    using r(1) o by simp
  have a2: "saved (trace (snd (run_tasks scenario [3420..3425] (start_world NoFile))))
              = [3420, 3421, 3422, 3423]"
    using r(1,2) st o by (simp add: start_world_def)
  have la: "last (stepped_ids outs) = 3423" using st o by simp
  have ne: "stepped_ids outs \<noteq> [] \<and>
            tracker_write (scenario (last (stepped_ids outs))) = Written"
    using st wr o by simp
  with r(3) have
    "tracker_file w' = Holds (JObj [(''last_index'', JInt (last (stepped_ids outs)))]) \<and>
     fst (load_job_tracker (tracker_file w')) = Inr (last (stepped_ids outs))"
    by blast
  then have a3:
    "tracker_file (snd (run_tasks scenario [3420..3425] (start_world NoFile)))
       = Holds (JObj [(''last_index'', JInt 3423)])"
    "fst (load_job_tracker (tracker_file (snd (run_tasks scenario [3420..3425]
                                               (start_world NoFile))))) = Inr 3423"
    unfolding r(1) la snd_conv by blast+
  show ?thesis
    by (intro conjI; fact a1 st wr a2 a3 so)
qed

end
